theory Spec2Isabelle
  imports Complex_Main
begin

section \<open>APIKeyPool (package utils)\<close>

text \<open>
  Instants of the monotonic clock (\<open>time.Now()\<close>) and durations are integers
  (nanoseconds); \<open>Before\<close> and \<open>After\<close> are the strict orders on them.
  The maps of the pool are partial functions; the slice of keys is a list, so a key
  listed twice stays listed twice.
\<close>

record APIKeyPool =
  keys :: "string list"
  usageCounts :: "string \<rightharpoonup> int"
  lastUsedTime :: "string \<rightharpoonup> int"
  blacklist :: "string \<rightharpoonup> int"

datatype pool_error = NoAvailableKeys

text \<open>Go's \<open>int\<close> is 64 bits wide: sums wrap around in two's complement.\<close>

definition wrap64 :: "int \<Rightarrow> int" where
  "wrap64 x = (x + 2 ^ 63) mod 2 ^ 64 - 2 ^ 63"

text \<open>Reading \<open>p.usageCounts[key]\<close>: a missing key reads as 0.\<close>

definition usageCount :: "APIKeyPool \<Rightarrow> string \<Rightarrow> int" where
  "usageCount p k = (case usageCounts p k of None \<Rightarrow> 0 | Some c \<Rightarrow> c)"

definition NewAPIKeyPool :: "string list \<Rightarrow> APIKeyPool option" where
  "NewAPIKeyPool ks =
     (if length ks = 0 then None
      else Some \<lparr>keys = ks, usageCounts = Map.empty, lastUsedTime = Map.empty,
                 blacklist = Map.empty\<rparr>)"

text \<open>\<open>cleanBlacklist\<close>: every entry with \<open>now.After(expireTime)\<close> is deleted.\<close>

definition cleanBlacklist :: "int \<Rightarrow> APIKeyPool \<Rightarrow> APIKeyPool" where
  "cleanBlacklist now p =
     p\<lparr>blacklist := (\<lambda>k. case blacklist p k of
                              None \<Rightarrow> None
                            | Some expireTime \<Rightarrow> if expireTime < now then None else Some expireTime)\<rparr>"

text \<open>\<open>getAvailableKeys\<close>: the keys, in order, skipping those with
  \<open>now.Before(expireTime)\<close>.\<close>

definition stillBlacklisted :: "int \<Rightarrow> APIKeyPool \<Rightarrow> string \<Rightarrow> bool" where
  "stillBlacklisted now p k =
     (case blacklist p k of None \<Rightarrow> False | Some expireTime \<Rightarrow> now < expireTime)"

definition getAvailableKeys :: "int \<Rightarrow> APIKeyPool \<Rightarrow> string list" where
  "getAvailableKeys now p = filter (\<lambda>k. \<not> stillBlacklisted now p k) (keys p)"

text \<open>The first loop of \<open>GetRandomKey\<close>, started with \<open>minUsage := -1\<close>.\<close>

fun minUsageLoop :: "APIKeyPool \<Rightarrow> string list \<Rightarrow> int \<Rightarrow> int" where
  "minUsageLoop p [] minUsage = minUsage"
| "minUsageLoop p (key # rest) minUsage =
     (let count = usageCount p key
      in minUsageLoop p rest (if minUsage = - 1 \<or> count < minUsage then count else minUsage))"

definition threshold :: "APIKeyPool \<Rightarrow> string list \<Rightarrow> int" where
  "threshold p available =
     wrap64 (minUsageLoop p available (- 1) + int (length available) div 2)"

text \<open>The second loop: the candidates, before the fallback to all available keys.\<close>

definition leastUsed :: "APIKeyPool \<Rightarrow> string list \<Rightarrow> string list" where
  "leastUsed p available = filter (\<lambda>key. usageCount p key \<le> threshold p available) available"

definition candidates :: "APIKeyPool \<Rightarrow> string list \<Rightarrow> string list" where
  "candidates p available =
     (if length (leastUsed p available) = 0 then available else leastUsed p available)"

text \<open>
  \<open>GetRandomKey\<close>. The three readings of the clock (in \<open>cleanBlacklist\<close>, in
  \<open>getAvailableKeys\<close> and for \<open>lastUsedTime\<close>) are the parameters \<open>tClean\<close>,
  \<open>tAvail\<close>, \<open>tUsed\<close>. \<open>rand.Intn(n)\<close> answers some number below \<open>n\<close>: the
  parameter \<open>r\<close> is the state of the random source and the answer is \<open>r mod n\<close>,
  which takes every value below \<open>n\<close> as \<open>r\<close> varies. The result is the returned
  pair (error or key) together with the pool after the call.
\<close>

definition GetRandomKey ::
  "nat \<Rightarrow> int \<Rightarrow> int \<Rightarrow> int \<Rightarrow> APIKeyPool \<Rightarrow> (pool_error + string) \<times> APIKeyPool" where
  "GetRandomKey r tClean tAvail tUsed p0 =
     (let p = cleanBlacklist tClean p0;
          available = getAvailableKeys tAvail p
      in if length available = 0 then (Inl NoAvailableKeys, p)
         else
           let cs = candidates p available;
               selectedKey = cs ! (r mod length cs)
           in (Inr selectedKey,
               p\<lparr>usageCounts := (usageCounts p)(selectedKey \<mapsto> wrap64 (usageCount p selectedKey + 1)),
                 lastUsedTime := (lastUsedTime p)(selectedKey \<mapsto> tUsed)\<rparr>))"

definition MarkSuccess :: "string \<Rightarrow> APIKeyPool \<Rightarrow> APIKeyPool" where
  "MarkSuccess key p = p"

text \<open>\<open>MarkFailed\<close> at clock reading \<open>now\<close>.\<close>

definition MarkFailed :: "string \<Rightarrow> int \<Rightarrow> int \<Rightarrow> APIKeyPool \<Rightarrow> APIKeyPool" where
  "MarkFailed key retryAfter now p = p\<lparr>blacklist := (blacklist p)(key \<mapsto> now + retryAfter)\<rparr>"

text \<open>
  The counters a pool can hold: they start at 0 and only \<open>GetRandomKey\<close> changes
  them, by one, so they are not negative, and they stay far from the 64-bit limit.
\<close>

definition usage_in_range :: "APIKeyPool \<Rightarrow> bool" where
  "usage_in_range p =
     (\<forall>k \<in> set (keys p). 0 \<le> usageCount p k \<and> usageCount p k + int (length (keys p)) < 2 ^ 63)"


text \<open>Operations on a pool, for stating what holds between two calls.\<close>

datatype pool_op = Acquire nat int int int | Success string | Failed string int int

fun step :: "pool_op \<Rightarrow> APIKeyPool \<Rightarrow> APIKeyPool" where
  "step (Acquire r tClean tAvail tUsed) p = snd (GetRandomKey r tClean tAvail tUsed p)"
| "step (Success key) p = MarkSuccess key p"
| "step (Failed key retryAfter now) p = MarkFailed key retryAfter now p"

fun run :: "pool_op list \<Rightarrow> APIKeyPool \<Rightarrow> APIKeyPool" where
  "run [] p = p"
| "run (operation # rest) p = run rest (step operation p)"

text \<open>The operation read the clock in order and was over by the reading \<open>t\<close>.\<close>

fun performed_by :: "int \<Rightarrow> pool_op \<Rightarrow> bool" where
  "performed_by t (Acquire r tClean tAvail tUsed) = (tClean \<le> tAvail \<and> tAvail \<le> tUsed \<and> tUsed \<le> t)"
| "performed_by t (Success key) = True"
| "performed_by t (Failed key retryAfter now) = (now \<le> t)"

text \<open>The operation does not replace the entry of \<open>k\<close> by one that expires before
  \<open>deadline\<close> (\<open>MarkFailed\<close> overwrites the entry of its key).\<close>

fun keeps_cooldown :: "string \<Rightarrow> int \<Rightarrow> pool_op \<Rightarrow> bool" where
  "keeps_cooldown k deadline (Failed key retryAfter now) = (key = k \<longrightarrow> deadline \<le> now + retryAfter)"
| "keeps_cooldown k deadline _ = True"

text \<open>The selection in the words of the specification.\<close>

definition spec_minUsage :: "APIKeyPool \<Rightarrow> string list \<Rightarrow> int" where
  "spec_minUsage p available = Min (usageCount p ` set available)"

definition spec_candidates :: "APIKeyPool \<Rightarrow> string list \<Rightarrow> string list" where
  "spec_candidates p available =
     filter (\<lambda>k. usageCount p k \<le> spec_minUsage p available + int (length available) div 2) available"


text \<open>A pool of three keys for concrete evaluation: \<open>k1\<close> is blacklisted until the
  reading 100.\<close>

definition example_pool :: APIKeyPool where
  "example_pool =
     \<lparr>keys = [''k1'', ''k2'', ''k3''],
      usageCounts = [''k1'' \<mapsto> 2, ''k3'' \<mapsto> 5],
      lastUsedTime = Map.empty,
      blacklist = [''k1'' \<mapsto> 100]\<rparr>"

section \<open>TextProcessor (package services, text\_processor.go)\<close>

text \<open>
  A Go string that is valid UTF-8 (the request decoder delivers no other) is the list of
  its Unicode code points. \<open>len\<close> counts bytes: one to four for each code point.
  Iterating over \<open>[]rune(text)\<close> is iterating over the list.
\<close>

type_synonym gostring = "nat list"

definition runeLen :: "nat \<Rightarrow> int" where
  "runeLen r = (if r < 0x80 then 1 else if r < 0x800 then 2 else if r < 0x10000 then 3 else 4)"

definition len :: "gostring \<Rightarrow> int" where
  "len s = sum_list (map runeLen s)"

text \<open>The code points of an ASCII literal.\<close>

definition ascii :: "string \<Rightarrow> gostring" where
  "ascii s = map of_char s"

text \<open>
  The library functions the splitter calls. \<open>unicode.IsSpace\<close>: tab, line feed,
  vertical tab, form feed, carriage return, space, U+0085, U+00A0 and, beyond Latin-1,
  the code points with the property White\_Space. \<open>strings.TrimSpace\<close> removes the
  leading and trailing white space; \<open>strings.Fields\<close> returns the maximal runs of
  code points that are not white space, in order.
\<close>

definition IsSpace :: "nat \<Rightarrow> bool" where
  "IsSpace r =
     (r = 0x09 \<or> r = 0x0A \<or> r = 0x0B \<or> r = 0x0C \<or> r = 0x0D \<or> r = 0x20 \<or> r = 0x85 \<or> r = 0xA0
      \<or> r = 0x1680 \<or> (0x2000 \<le> r \<and> r \<le> 0x200A) \<or> r = 0x2028 \<or> r = 0x2029
      \<or> r = 0x202F \<or> r = 0x205F \<or> r = 0x3000)"

definition TrimSpace :: "gostring \<Rightarrow> gostring" where
  "TrimSpace s = rev (dropWhile IsSpace (rev (dropWhile IsSpace s)))"

fun fieldsFrom :: "gostring \<Rightarrow> gostring \<Rightarrow> gostring list" where
  "fieldsFrom word [] = (if word = [] then [] else [word])"
| "fieldsFrom word (r # rest) =
     (if IsSpace r then (if word = [] then fieldsFrom [] rest else word # fieldsFrom [] rest)
      else fieldsFrom (word @ [r]) rest)"

definition Fields :: "gostring \<Rightarrow> gostring list" where
  "Fields s = fieldsFrom [] s"

text \<open>\<open>isSentenceEnding\<close>: \<open>. ! ?\<close> and the full-width \<open>U+3002 U+FF01 U+FF1F\<close>.\<close>

definition isSentenceEnding :: "nat \<Rightarrow> bool" where
  "isSentenceEnding r = (r = 0x2E \<or> r = 0x21 \<or> r = 0x3F \<or> r = 0x3002 \<or> r = 0xFF01 \<or> r = 0xFF1F)"

text \<open>
  \<open>splitIntoSentences\<close>: the loop over the runes, with \<open>current\<close> the text gathered
  since the last cut; a sentence ends at a sentence ending followed by white space.
\<close>

fun sentencesFrom :: "gostring \<Rightarrow> gostring \<Rightarrow> gostring list" where
  "sentencesFrom current [] =
     (if current \<noteq> [] then (let sentence = TrimSpace current in if sentence \<noteq> [] then [sentence] else [])
      else [])"
| "sentencesFrom current (r # rest) =
     (let current' = current @ [r]
      in if isSentenceEnding r \<and> (case rest of [] \<Rightarrow> False | next_r # _ \<Rightarrow> IsSpace next_r)
         then (let sentence = TrimSpace current'
               in (if sentence \<noteq> [] then [sentence] else []) @ sentencesFrom [] rest)
         else sentencesFrom current' rest)"

definition splitIntoSentences :: "gostring \<Rightarrow> gostring list" where
  "splitIntoSentences text = sentencesFrom [] text"

text \<open>\<open>splitLongText\<close>: the loop over the words, then the last chunk.\<close>

fun longTextLoop :: "int \<Rightarrow> gostring list \<Rightarrow> gostring \<Rightarrow> gostring list \<Rightarrow> gostring list" where
  "longTextLoop limit chunks current [] = (if current \<noteq> [] then chunks @ [current] else chunks)"
| "longTextLoop limit chunks current (word # rest) =
     (if len current + len word + 1 > limit
      then longTextLoop limit (if current \<noteq> [] then chunks @ [current] else chunks) word rest
      else longTextLoop limit chunks (if current \<noteq> [] then current @ [0x20] @ word else word) rest)"

definition splitLongText :: "gostring \<Rightarrow> int \<Rightarrow> gostring list" where
  "splitLongText text limit = longTextLoop limit [] [] (Fields text)"

text \<open>\<open>SplitForAudio\<close>, with \<open>AudioChunkSize\<close> as the first parameter: the loop over
  the sentences, then the function.\<close>

fun audioLoop :: "int \<Rightarrow> gostring list \<Rightarrow> gostring \<Rightarrow> gostring list \<Rightarrow> gostring list" where
  "audioLoop AudioChunkSize chunks currentChunk [] =
     (if currentChunk \<noteq> [] then chunks @ [currentChunk] else chunks)"
| "audioLoop AudioChunkSize chunks currentChunk (sentence # rest) =
     (let potentialLen = len currentChunk + len sentence + (if currentChunk \<noteq> [] then 1 else 0)
      in if potentialLen \<le> AudioChunkSize
         then audioLoop AudioChunkSize chunks
                (if currentChunk \<noteq> [] then currentChunk @ [0x20] @ sentence else sentence) rest
         else
           let chunks' = (if currentChunk \<noteq> [] then chunks @ [currentChunk] else chunks)
           in if len sentence > AudioChunkSize
              then audioLoop AudioChunkSize (chunks' @ splitLongText sentence AudioChunkSize) [] rest
              else audioLoop AudioChunkSize chunks' sentence rest)"

definition SplitForAudio :: "int \<Rightarrow> gostring \<Rightarrow> gostring list" where
  "SplitForAudio AudioChunkSize text0 =
     (let text = TrimSpace text0
      in if text = [] then []
         else if len text \<le> AudioChunkSize then [text]
         else audioLoop AudioChunkSize [] [] (splitIntoSentences text))"

text \<open>An atomic token: a non-empty text without white space.\<close>

definition atomic_token :: "gostring \<Rightarrow> bool" where
  "atomic_token s = (s \<noteq> [] \<and> (\<forall>r \<in> set s. \<not> IsSpace r))"

section \<open>Media composition (package utils; StockVideoService of package services)\<close>

text \<open>
  Durations and the other \<open>float64\<close> values are real numbers: the arithmetic of the
  source is read exactly, without rounding. What the functions do is run the external
  encoder, so a call returns the commands it ran, in order, and its error (\<open>None\<close> for
  \<open>nil\<close>). A command is kept by its meaning, not as its argument strings: a
  duration or an offset is the number the source formats (with two decimals) into the
  argument.
\<close>

datatype label = VNorm nat | V nat | VOut

text \<open>
  The two filters of the transition merge:
  \<^verbatim>\<open>[i:v]scale=RES,setsar=SAR,fps=FPS,format=FMT[v<i>norm]\<close> and
  \<^verbatim>\<open>LAST CUR xfade=transition=fade:duration=D:offset=O OUT\<close>.
\<close>

datatype vfilter =
    Normalize nat string nat int string label
  | XFade label label real real label

text \<open>
  The encoder commands: re-encoding one file at a frame rate and resolution; a
  \<open>-filter_complex\<close> run over inputs, mapping a label, at a frame rate; \<open>-t\<close> with
  stream copy (\<open>TrimVideo\<close>); the concat demuxer over a list file, whose lines are kept.
\<close>

datatype ffmpeg_cmd =
    Reencode string int string string
  | FilterComplex "string list" "vfilter list" label int string
  | Trim string real string
  | ConcatCopy string "string list" string

datatype media_error =
    NoInputFiles
  | NoInputVideos
  | FFprobeError string
  | FFmpegError ffmpeg_cmd
  | CreateError string
  | AbsError string
  | DurationOf string media_error
  | ConcatFailed media_error
  | MergeFailed media_error

text \<open>
  What the functions read from outside: \<open>ffprobe\<close>'s answer for a file, whether a run
  of the encoder succeeds, whether a file can be created, \<open>filepath.Abs\<close>,
  \<open>filepath.Join(filepath.Dir(path), name)\<close>, and whether \<open>os.Stat\<close> finds a file.
\<close>

record world =
  probe :: "string \<Rightarrow> real option"
  encoder_ok :: "ffmpeg_cmd \<Rightarrow> bool"
  create_ok :: "string \<Rightarrow> bool"
  abs_path :: "string \<Rightarrow> string option"
  sibling :: "string \<Rightarrow> string \<Rightarrow> string"
  file_exists :: "string \<Rightarrow> bool"

type_synonym outcome = "ffmpeg_cmd list \<times> media_error option"

definition RunFFmpegCommand :: "world \<Rightarrow> ffmpeg_cmd \<Rightarrow> outcome" where
  "RunFFmpegCommand w cmd = ([cmd], if encoder_ok w cmd then None else Some (FFmpegError cmd))"

definition GetVideoDuration :: "world \<Rightarrow> string \<Rightarrow> media_error + real" where
  "GetVideoDuration w videoPath =
     (case probe w videoPath of None \<Rightarrow> Inl (FFprobeError videoPath) | Some duration \<Rightarrow> Inr duration)"


text \<open>The loop that reads the duration of every file and stops at the first failure.\<close>

fun durationsLoop :: "world \<Rightarrow> string list \<Rightarrow> media_error + real list" where
  "durationsLoop w [] = Inr []"
| "durationsLoop w (file # rest) =
     (case GetVideoDuration w file of
        Inl err \<Rightarrow> Inl (DurationOf file err)
      | Inr dur \<Rightarrow> (case durationsLoop w rest of Inl err \<Rightarrow> Inl err | Inr durs \<Rightarrow> Inr (dur # durs)))"

text \<open>Step 1 of \<open>MergeVideosWithTransition\<close>: one normalisation per input.\<close>

definition normFilters :: "nat \<Rightarrow> string \<Rightarrow> int \<Rightarrow> vfilter list" where
  "normFilters n resolution fps =
     map (\<lambda>i. Normalize i resolution 1 fps ''yuv420p'' (VNorm i)) [0..<n]"

text \<open>Step 2: the loop \<open>for i := 1; i < len(inputFiles); i++\<close>, with its variables
  \<open>offset\<close>, \<open>lastLabel\<close> and \<open>filterParts\<close>.\<close>

function xfadeLoop ::
  "real list \<Rightarrow> real \<Rightarrow> nat \<Rightarrow> nat \<Rightarrow> real \<Rightarrow> label \<Rightarrow> vfilter list \<Rightarrow> vfilter list" where
  "xfadeLoop durations transitionDuration n i offset lastLabel filterParts =
     (if i < n
      then xfadeLoop durations transitionDuration n (i + 1)
             (offset + (durations ! (i - 1) - transitionDuration))
             (if i = n - 1 then VOut else V i)
             (filterParts @
                [XFade lastLabel (VNorm i) transitionDuration
                   (offset + (durations ! (i - 1) - transitionDuration))
                   (if i = n - 1 then VOut else V i)])
      else filterParts)"
  by pat_completeness auto
termination
  by (relation "measure (\<lambda>(durations, transitionDuration, n, i, offset, lastLabel, filterParts). n - i)") auto

definition MergeVideosWithTransition ::
  "world \<Rightarrow> string list \<Rightarrow> string \<Rightarrow> real \<Rightarrow> int \<Rightarrow> string \<Rightarrow> outcome" where
  "MergeVideosWithTransition w inputFiles outputFile transitionDuration fps resolution =
     (if length inputFiles = 0 then ([], Some NoInputFiles)
      else if length inputFiles = 1
      then RunFFmpegCommand w (Reencode (inputFiles ! 0) fps resolution outputFile)
      else
        case durationsLoop w inputFiles of
          Inl err \<Rightarrow> ([], Some err)
        | Inr durations \<Rightarrow>
            RunFFmpegCommand w
              (FilterComplex inputFiles
                 (xfadeLoop durations transitionDuration (length inputFiles) 1 0 (VNorm 0)
                    (normFilters (length inputFiles) resolution fps))
                 VOut fps outputFile))"

text \<open>The offsets in the words of the specification: the offset for pair \<open>i\<close> is the
  offset for pair \<open>i - 1\<close> plus the duration of clip \<open>i - 1\<close> minus the transition.\<close>

fun spec_offset :: "real list \<Rightarrow> real \<Rightarrow> nat \<Rightarrow> real" where
  "spec_offset durations transitionSeconds 0 = 0"
| "spec_offset durations transitionSeconds (Suc i) =
     spec_offset durations transitionSeconds i + durations ! i - transitionSeconds"

text \<open>The filter of pair \<open>i\<close> among \<open>n\<close> inputs, in the same words: it joins the result
  so far (the first normalised input, or the output of pair \<open>i - 1\<close>) to the
  normalised input \<open>i\<close>, and the last pair writes \<open>[vout]\<close>.\<close>

definition spec_xfade :: "real list \<Rightarrow> real \<Rightarrow> nat \<Rightarrow> nat \<Rightarrow> vfilter" where
  "spec_xfade durations transitionSeconds n i =
     XFade (if i = 1 then VNorm 0 else V (i - 1)) (VNorm i) transitionSeconds
       (spec_offset durations transitionSeconds i) (if i = n - 1 then VOut else V i)"








text \<open>A world in which every file lasts 4 seconds and nothing fails.\<close>

definition example_world :: world where
  "example_world =
     \<lparr>probe = (\<lambda>path. Some 4), encoder_ok = (\<lambda>cmd. True), create_ok = (\<lambda>path. True),
      abs_path = (\<lambda>path. Some path), sibling = (\<lambda>path name. ''out/'' @ name),
      file_exists = (\<lambda>path. False)\<rparr>"

section \<open>Batch generation (audio\_service.go, composer\_service.go)\<close>

text \<open>
  \<open>GenerateAudioChunks\<close> and \<open>GenerateVideos\<close> start one goroutine per unit; each
  stores its error or its path at its own index, and the goroutine of the last index
  closes \<open>done\<close> after storing. The caller waits on \<open>done\<close> only, then scans
  \<open>errors\<close>. What the caller sees is decided by the outcome of each unit (\<open>unit i\<close>: the
  error after its retries, or the path) and by the schedule: \<open>stored i\<close> tells whether
  unit \<open>i\<close> had stored its result when the caller resumed. The unit of the last index
  has always stored by then. \<open>None\<close> is a call that never returns: with no unit, or with
  a semaphore of capacity 0, nothing closes \<open>done\<close>. A negative capacity makes
  \<open>make\<close> panic.
\<close>

datatype batch_error = UnitFailed nat string | LengthMismatch | MakeChanPanic

text \<open>The loop \<open>for i, err := range errors\<close>, from index \<open>i\<close> on.\<close>

fun firstError :: "nat \<Rightarrow> string option list \<Rightarrow> (nat \<times> string) option" where
  "firstError i [] = None"
| "firstError i (None # rest) = firstError (i + 1) rest"
| "firstError i (Some err # rest) = Some (i, err)"

definition seenErrors :: "(nat \<Rightarrow> string + string) \<Rightarrow> (nat \<Rightarrow> bool) \<Rightarrow> nat \<Rightarrow> string option list" where
  "seenErrors unit stored n =
     map (\<lambda>i. if i = n - 1 \<or> stored i
              then (case unit i of Inl err \<Rightarrow> Some err | Inr path \<Rightarrow> None) else None) [0..<n]"

definition seenPaths :: "(nat \<Rightarrow> string + string) \<Rightarrow> (nat \<Rightarrow> bool) \<Rightarrow> nat \<Rightarrow> string list" where
  "seenPaths unit stored n =
     map (\<lambda>i. if i = n - 1 \<or> stored i
              then (case unit i of Inl err \<Rightarrow> [] | Inr path \<Rightarrow> path) else []) [0..<n]"

text \<open>\<open>GenerateAudioChunks\<close> for \<open>n\<close> chunks.\<close>

definition GenerateAudioChunks ::
  "(nat \<Rightarrow> string + string) \<Rightarrow> (nat \<Rightarrow> bool) \<Rightarrow> nat \<Rightarrow> int \<Rightarrow> (batch_error + string list) option" where
  "GenerateAudioChunks unit stored n maxConcurrent =
     (if maxConcurrent < 0 then Some (Inl MakeChanPanic)
      else if n = 0 \<or> maxConcurrent = 0 then None
      else
        case firstError 0 (seenErrors unit stored n) of
          Some (i, err) \<Rightarrow> Some (Inl (UnitFailed i err))
        | None \<Rightarrow> Some (Inr (seenPaths unit stored n)))"

text \<open>\<open>GenerateVideos\<close> for \<open>n\<close> prompts and \<open>m\<close> durations.\<close>

definition GenerateVideos ::
  "(nat \<Rightarrow> string + string) \<Rightarrow> (nat \<Rightarrow> bool) \<Rightarrow> nat \<Rightarrow> nat \<Rightarrow> int \<Rightarrow> (batch_error + string list) option" where
  "GenerateVideos unit stored n m maxConcurrent =
     (if n \<noteq> m then Some (Inl LengthMismatch)
      else if maxConcurrent < 0 then Some (Inl MakeChanPanic)
      else if n = 0 \<or> maxConcurrent = 0 then None
      else
        case firstError 0 (seenErrors unit stored n) of
          Some (i, err) \<Rightarrow> Some (Inl (UnitFailed i err))
        | None \<Rightarrow> Some (Inr (seenPaths unit stored n)))"

text \<open>Two units: the first fails after its three attempts, the second succeeds.\<close>

definition example_units :: "nat \<Rightarrow> string + string" where
  "example_units i = (if i = 0 then Inl ''failed after 3 retries'' else Inr ''chunk_001.mp3'')"

section \<open>VideoHandler (package handlers, video\_handler.go)\<close>

text \<open>
  The request, the job record and the handler. The two timestamps of a job are left out.
  The step shown for a job is one of a fixed set of messages, two of which carry a
  count. Errors are their messages. Beside the job registry the handler state holds what
  the code does outside it: the background tasks it started (\<open>go
  h.processVideoGeneration(jobID, req)\<close>) and the lines it logged.
\<close>

record GenerateRequest =
  Script :: gostring
  Voice :: string
  SpeakingSpeed :: real
  VideoStyle :: string
  VideoSource :: string
  StockKeywords :: string

datatype job_step =
    Initializing
  | CreatingTempDirs
  | SplittingForAudio
  | GeneratingAudio nat
  | GeneratingSubtitles
  | MergingAudio
  | PreparingStock
  | SplittingForVideo
  | GeneratingPrompts
  | GeneratingVideo nat
  | MergingVideo
  | Composing
  | AddingIntroOutro
  | Complete

record JobStatus =
  JobID :: string
  Status :: string
  Progress :: int
  CurrentStep :: job_step
  VideoPath :: string
  Error :: "string option"

datatype log_line =
    StatusLine job_step int
  | SubtitlesFailed media_error
  | JobFailed string
  | JobCompleted

record VideoHandler =
  MaxTextLength :: int
  AudioCrossfadeDuration :: real
  jobs :: "string \<rightharpoonup> JobStatus"
  started :: "(string \<times> GenerateRequest) list"
  logged :: "log_line list"

datatype response = BadRequest string | OK string string

text \<open>
  \<open>Generate\<close>. \<open>body\<close> is the decoded request (\<open>None\<close> when the JSON cannot be
  decoded); the binding rejects an empty \<open>script\<close> or \<open>voice\<close> (\<open>binding:"required"\<close>).
  \<open>newID\<close> is the identifier \<open>uuid.New()\<close> delivers. The speed is a number a JSON
  document can hold, so a real number.
\<close>

definition Generate :: "string \<Rightarrow> GenerateRequest option \<Rightarrow> VideoHandler \<Rightarrow> response \<times> VideoHandler" where
  "Generate newID body h =
     (case body of
        None \<Rightarrow> (BadRequest ''Invalid request'', h)
      | Some req0 \<Rightarrow>
          if Script req0 = [] \<or> Voice req0 = [] then (BadRequest ''Invalid request'', h)
          else if Script req0 = [] then (BadRequest ''Script is required'', h)
          else if len (Script req0) > MaxTextLength h then (BadRequest ''Script too long'', h)
          else
            let req = (if SpeakingSpeed req0 = 0 then req0\<lparr>SpeakingSpeed := 1.0\<rparr> else req0)
            in if SpeakingSpeed req < 0.5 \<or> SpeakingSpeed req > 2.0
               then (BadRequest ''Speaking speed must be between 0.5 and 2.0'', h)
               else
                 (OK newID ''processing'',
                  h\<lparr>jobs := (jobs h)(newID \<mapsto>
                       \<lparr>JobID = newID, Status = ''processing'', Progress = 0,
                        CurrentStep = Initializing, VideoPath = [], Error = None\<rparr>),
                    started := started h @ [(newID, req)]\<rparr>))"

text \<open>The helper \<open>updateStatus\<close> of \<open>processVideoGeneration\<close>, and \<open>markJobFailed\<close>.\<close>

definition updateStatus :: "string \<Rightarrow> job_step \<Rightarrow> int \<Rightarrow> VideoHandler \<Rightarrow> VideoHandler" where
  "updateStatus jobID stp progress h =
     h\<lparr>jobs := (case jobs h jobID of
                   Some job \<Rightarrow> (jobs h)(jobID \<mapsto> job\<lparr>CurrentStep := stp, Progress := progress\<rparr>)
                 | None \<Rightarrow> jobs h),
       logged := logged h @ [StatusLine stp progress]\<rparr>"

definition markJobFailed :: "string \<Rightarrow> string \<Rightarrow> VideoHandler \<Rightarrow> VideoHandler" where
  "markJobFailed jobID err h =
     h\<lparr>jobs := (case jobs h jobID of
                   Some job \<Rightarrow> (jobs h)(jobID \<mapsto> job\<lparr>Status := ''failed'', Error := Some err\<rparr>)
                 | None \<Rightarrow> jobs h),
       logged := logged h @ [JobFailed err]\<rparr>"

text \<open>\<open>filepath.Join\<close> of clean components.\<close>

fun joinPath :: "string list \<Rightarrow> string" where
  "joinPath [] = []"
| "joinPath [name] = name"
| "joinPath (name # rest) = name @ ''/'' @ joinPath rest"

text \<open>
  \<open>GenerateSRT\<close>. A cue is its number, start, end and text (the timestamps before
  formatting). The loop runs over the audio paths with the index \<open>i\<close> and the running
  \<open>currentOffset\<close>, and stops at the first duration that cannot be read.
\<close>

type_synonym cue = "nat \<times> real \<times> real \<times> gostring"

fun srtLoop :: "world \<Rightarrow> real \<Rightarrow> nat \<Rightarrow> real \<Rightarrow> string list \<Rightarrow> gostring list \<Rightarrow> media_error + cue list" where
  "srtLoop w crossfade i currentOffset [] texts = Inr []"
| "srtLoop w crossfade i currentOffset (audioPath # rest) texts =
     (if i \<ge> length texts then Inr []
      else
        case GetVideoDuration w audioPath of
          Inl err \<Rightarrow> Inl (DurationOf audioPath err)
        | Inr duration \<Rightarrow>
            let offset = (if i > 0 then currentOffset - crossfade else currentOffset)
            in case srtLoop w crossfade (i + 1) (offset + duration) rest texts of
                 Inl err \<Rightarrow> Inl err
               | Inr cues \<Rightarrow> Inr ((i + 1, offset, offset + duration, texts ! i) # cues))"

definition GenerateSRT ::
  "world \<Rightarrow> real \<Rightarrow> string list \<Rightarrow> gostring list \<Rightarrow> string \<Rightarrow> media_error + string \<times> cue list" where
  "GenerateSRT w crossfade audioPaths texts outputDir =
     (let srtPath = joinPath [outputDir, ''subtitles.srt'']
      in if \<not> create_ok w srtPath then Inl (CreateError srtPath)
         else
           let introPath = ''static/intro_video.mp4'';
               currentOffset =
                 (if file_exists w introPath
                  then (case GetVideoDuration w introPath of Inr duration \<Rightarrow> duration | Inl err \<Rightarrow> 0)
                  else 0)
           in case srtLoop w crossfade 0 currentOffset audioPaths texts of
                Inl err \<Rightarrow> Inl err
              | Inr cues \<Rightarrow> Inr (srtPath, cues))"

text \<open>
  The outcome of every other stage of one run of the pipeline (each runs at most once):
  the error, or what the stage delivers.
\<close>

record stages =
  createTempDir :: "string + string"
  splitForSubtitles :: "gostring list"
  generateAudioChunks :: "string + string list"
  mergeAudioFiles :: "string option"
  audioDuration :: "string + real"
  prepareStockVideo :: "string + string"
  splitForVideo :: "(gostring \<times> real) list"
  generateVideoPrompts :: "string + string list"
  generateVideos :: "string + string list"
  mergeVideos :: "string option"
  composeVideoWithAudio :: "string option"
  concatVideos :: "string option"

text \<open>\<open>processVideoGeneration\<close>, from its end: completion, step 9, step 8, steps 4 to 7,
  step 3, and the whole.\<close>

definition completeJob :: "string \<Rightarrow> string \<Rightarrow> VideoHandler \<Rightarrow> VideoHandler" where
  "completeJob jobID finalVideoPath h0 =
     (let h = updateStatus jobID Complete 100 h0
      in h\<lparr>jobs := (case jobs h jobID of
                      Some job \<Rightarrow> (jobs h)(jobID \<mapsto> job\<lparr>Status := ''completed'', VideoPath := finalVideoPath\<rparr>)
                    | None \<Rightarrow> jobs h),
           logged := logged h @ [JobCompleted]\<rparr>)"

definition introOutroStage :: "world \<Rightarrow> stages \<Rightarrow> string \<Rightarrow> string \<Rightarrow> VideoHandler \<Rightarrow> VideoHandler" where
  "introOutroStage w st jobID tempDir h0 =
     (let h = updateStatus jobID AddingIntroOutro 95 h0;
          finalVideoPath = joinPath [tempDir, ''output'', ''final_video.mp4''];
          introPath = ''static/intro_video.mp4'';
          outroPath = ''static/outro_video.mp4'';
          concatList = (if file_exists w introPath then [introPath] else [])
                       @ [finalVideoPath]
                       @ (if file_exists w outroPath then [outroPath] else [])
      in if length concatList > 1
         then (case concatVideos st of
                 Some err \<Rightarrow> markJobFailed jobID (''failed to add intro/outro: '' @ err) h
               | None \<Rightarrow> completeJob jobID (joinPath [tempDir, ''output'', ''final_complete.mp4'']) h)
         else completeJob jobID finalVideoPath h)"

definition composeStage :: "world \<Rightarrow> stages \<Rightarrow> string \<Rightarrow> string \<Rightarrow> VideoHandler \<Rightarrow> VideoHandler" where
  "composeStage w st jobID tempDir h0 =
     (let h = updateStatus jobID Composing 90 h0
      in case composeVideoWithAudio st of
           Some err \<Rightarrow> markJobFailed jobID (''composition failed: '' @ err) h
         | None \<Rightarrow> introOutroStage w st jobID tempDir h)"

definition videoStage ::
  "world \<Rightarrow> stages \<Rightarrow> GenerateRequest \<Rightarrow> string \<Rightarrow> string \<Rightarrow> VideoHandler \<Rightarrow> VideoHandler" where
  "videoStage w st req jobID tempDir h0 =
     (if VideoSource req = ''stock''
      then
        let h = updateStatus jobID PreparingStock 50 h0
        in case audioDuration st of
             Inl err \<Rightarrow> markJobFailed jobID (''failed to get audio duration: '' @ err) h
           | Inr duration \<Rightarrow>
               (case prepareStockVideo st of
                  Inl err \<Rightarrow> markJobFailed jobID (''stock video preparation failed: '' @ err) h
                | Inr mergedVideoPath \<Rightarrow> composeStage w st jobID tempDir h)
      else
        let h1 = updateStatus jobID SplittingForVideo 45 h0;
            videoSegments = splitForVideo st;
            h2 = updateStatus jobID GeneratingPrompts 50 h1
        in case generateVideoPrompts st of
             Inl err \<Rightarrow> markJobFailed jobID (''prompt generation failed: '' @ err) h2
           | Inr prompts \<Rightarrow>
               let h3 = updateStatus jobID (GeneratingVideo (length videoSegments)) 55 h2
               in case generateVideos st of
                    Inl err \<Rightarrow> markJobFailed jobID (''video generation failed: '' @ err) h3
                  | Inr videoPaths \<Rightarrow>
                      let h4 = updateStatus jobID MergingVideo 80 h3
                      in case mergeVideos st of
                           Some err \<Rightarrow> markJobFailed jobID (''video merge failed: '' @ err) h4
                         | None \<Rightarrow> composeStage w st jobID tempDir h4)"

definition mergeAudioStage ::
  "world \<Rightarrow> stages \<Rightarrow> GenerateRequest \<Rightarrow> string \<Rightarrow> string \<Rightarrow> VideoHandler \<Rightarrow> VideoHandler" where
  "mergeAudioStage w st req jobID tempDir h0 =
     (let h = updateStatus jobID MergingAudio 40 h0
      in case mergeAudioFiles st of
           Some err \<Rightarrow> markJobFailed jobID (''audio merge failed: '' @ err) h
         | None \<Rightarrow> videoStage w st req jobID tempDir h)"

definition processVideoGeneration ::
  "world \<Rightarrow> stages \<Rightarrow> string \<Rightarrow> GenerateRequest \<Rightarrow> VideoHandler \<Rightarrow> VideoHandler" where
  "processVideoGeneration w st jobID req h0 =
     (let h1 = updateStatus jobID CreatingTempDirs 5 h0
      in case createTempDir st of
           Inl err \<Rightarrow> markJobFailed jobID (''failed to create temp dir: '' @ err) h1
         | Inr tempDir \<Rightarrow>
             let h2 = updateStatus jobID SplittingForAudio 10 h1;
                 audioChunks = splitForSubtitles st;
                 h3 = updateStatus jobID (GeneratingAudio (length audioChunks)) 20 h2
             in case generateAudioChunks st of
                  Inl err \<Rightarrow> markJobFailed jobID (''audio generation failed: '' @ err) h3
                | Inr audioPaths \<Rightarrow>
                    let h4 = updateStatus jobID GeneratingSubtitles 30 h3;
                        h5 = (case GenerateSRT w (AudioCrossfadeDuration h4) audioPaths audioChunks
                                     (joinPath [tempDir, ''output'']) of
                                Inl err \<Rightarrow> h4\<lparr>logged := logged h4 @ [SubtitlesFailed err]\<rparr>
                              | Inr srt \<Rightarrow> h4)
                    in mergeAudioStage w st req jobID tempDir h5)"

text \<open>The handler at the moment the subtitle step has been announced, when the temporary
  directory and the audio chunks are there.\<close>

definition subtitleStageStart :: "stages \<Rightarrow> string \<Rightarrow> VideoHandler \<Rightarrow> VideoHandler" where
  "subtitleStageStart st jobID h =
     updateStatus jobID GeneratingSubtitles 30
       (updateStatus jobID (GeneratingAudio (length (splitForSubtitles st))) 20
          (updateStatus jobID SplittingForAudio 10
             (updateStatus jobID CreatingTempDirs 5 h)))"

text \<open>A request, a handler with one job, and a run in which every stage succeeds; in the
  world \<open>no_create_world\<close> no file can be created, so the subtitles fail.\<close>

definition example_request :: GenerateRequest where
  "example_request =
     \<lparr>Script = ascii ''One. Two.'', Voice = ''banmai'', SpeakingSpeed = 0, VideoStyle = [],
      VideoSource = ''stock'', StockKeywords = []\<rparr>"

definition example_handler :: VideoHandler where
  "example_handler =
     \<lparr>MaxTextLength = 50000, AudioCrossfadeDuration = 0.3,
      jobs = [''job1'' \<mapsto> \<lparr>JobID = ''job1'', Status = ''processing'', Progress = 0,
                             CurrentStep = Initializing, VideoPath = [], Error = None\<rparr>],
      started = [], logged = []\<rparr>"

definition example_stages :: stages where
  "example_stages =
     \<lparr>createTempDir = Inr ''tmp/job1'',
      splitForSubtitles = [ascii ''One.'', ascii ''Two.''],
      generateAudioChunks = Inr [''c0.mp3'', ''c1.mp3''],
      mergeAudioFiles = None,
      audioDuration = Inr 8,
      prepareStockVideo = Inr ''tmp/job1/stock/final_stock.mp4'',
      splitForVideo = [],
      generateVideoPrompts = Inr [],
      generateVideos = Inr [],
      mergeVideos = None,
      composeVideoWithAudio = None,
      concatVideos = None\<rparr>"

definition no_create_world :: world where
  "no_create_world = example_world\<lparr>create_ok := (\<lambda>path. False)\<rparr>"

section \<open>Properties of the APIKeyPool\<close>

lemma wrap64_id: "- (2 ^ 63) \<le> x \<Longrightarrow> x < 2 ^ 63 \<Longrightarrow> wrap64 x = x"
  by (simp add: wrap64_def)

lemma usageCount_clean: "usageCount (cleanBlacklist t p) k = usageCount p k"
  by (simp add: usageCount_def cleanBlacklist_def)

lemma keys_clean: "keys (cleanBlacklist t p) = keys p"
  by (simp add: cleanBlacklist_def)

lemma set_available: "set (getAvailableKeys t p) \<subseteq> set (keys p)"
  by (auto simp: getAvailableKeys_def)

lemma length_available: "length (getAvailableKeys t p) \<le> length (keys p)"
  by (simp add: getAvailableKeys_def)

lemma Min_insert_if:
  "finite A \<Longrightarrow> Min (insert (a::int) A) = (if A = {} then a else min a (Min A))"
  by simp

lemma minUsageLoop_nonneg:
  "\<forall>k \<in> set ks. 0 \<le> usageCount p k \<Longrightarrow> 0 \<le> m \<Longrightarrow>
   minUsageLoop p ks m = Min (insert m (usageCount p ` set ks))"
proof (induction ks arbitrary: m)
  case Nil
  then show ?case by simp
next
  case (Cons k ks)
  let ?c = "usageCount p k"
  let ?S = "usageCount p ` set ks"
  have fin: "finite ?S" by simp
  have c0: "0 \<le> ?c" using Cons.prems by simp
  have rest: "\<forall>k \<in> set ks. 0 \<le> usageCount p k" using Cons.prems by simp
  have step: "minUsageLoop p (k # ks) m = minUsageLoop p ks (min m ?c)"
    using Cons.prems(2) by (simp add: Let_def min_def)
  have "minUsageLoop p ks (min m ?c) = Min (insert (min m ?c) ?S)"
    using Cons.IH [OF rest, of "min m ?c"] c0 Cons.prems(2) by simp
  also have "\<dots> = Min (insert m (insert ?c ?S))"
    using fin by (simp add: Min_insert_if min.assoc)
  finally show ?case using step by simp
qed

lemma minUsageLoop_Min:
  assumes "ks \<noteq> []" "\<forall>k \<in> set ks. 0 \<le> usageCount p k"
  shows "minUsageLoop p ks (- 1) = spec_minUsage p ks"
proof (cases ks)
  case Nil
  with assms show ?thesis by simp
next
  case (Cons k rest)
  have "minUsageLoop p ks (- 1) = minUsageLoop p rest (usageCount p k)"
    using Cons by (simp add: Let_def)
  also have "\<dots> = Min (insert (usageCount p k) (usageCount p ` set rest))"
    using assms Cons by (intro minUsageLoop_nonneg) auto
  finally show ?thesis using Cons by (simp add: spec_minUsage_def)
qed

lemma spec_minUsage_attained:
  "ks \<noteq> [] \<Longrightarrow> \<exists>k \<in> set ks. usageCount p k = spec_minUsage p ks"
proof -
  assume "ks \<noteq> []"
  then have "Min (usageCount p ` set ks) \<in> usageCount p ` set ks"
    by (intro Min_in) auto
  then show ?thesis by (auto simp: spec_minUsage_def)
qed

text \<open>In a pool whose counters are in range the threshold does not wrap.\<close>

lemma threshold_in_range:
  assumes "usage_in_range p" "set available \<subseteq> set (keys p)"
    "length available \<le> length (keys p)" "available \<noteq> []"
  shows "threshold p available = spec_minUsage p available + int (length available) div 2"
proof -
  have nn: "\<forall>k \<in> set available. 0 \<le> usageCount p k"
    using assms(1,2) by (auto simp: usage_in_range_def)
  obtain k where k: "k \<in> set available" "usageCount p k = spec_minUsage p available"
    using spec_minUsage_attained [OF assms(4)] by blast
  have lo: "0 \<le> spec_minUsage p available" using k nn by auto
  have half: "0 \<le> int (length available) div 2"
    "int (length available) div 2 \<le> int (length (keys p))"
    using assms(3) by simp_all
  have "usageCount p k + int (length (keys p)) < 2 ^ 63"
    using assms(1,2) k(1) by (auto simp: usage_in_range_def)
  then have hi: "spec_minUsage p available + int (length available) div 2 < 2 ^ 63"
    using k(2) half(2) by linarith
  have pos: "(0::int) \<le> 2 ^ 63" by simp
  have "- (2 ^ 63) \<le> spec_minUsage p available + int (length available) div 2"
    using lo half(1) pos by linarith
  then show ?thesis
    using hi by (simp add: threshold_def minUsageLoop_Min [OF assms(4) nn] wrap64_id)
qed

lemma leastUsed_spec:
  assumes "usage_in_range p" "set available \<subseteq> set (keys p)"
    "length available \<le> length (keys p)" "available \<noteq> []"
  shows "leastUsed p available = spec_candidates p available"
  by (simp add: leastUsed_def spec_candidates_def threshold_in_range [OF assms])

lemma spec_candidates_nonempty:
  assumes "available \<noteq> []"
  shows "spec_candidates p available \<noteq> []"
proof -
  obtain k where k: "k \<in> set available" "usageCount p k = spec_minUsage p available"
    using spec_minUsage_attained [OF assms] by blast
  then have "k \<in> set (spec_candidates p available)"
    by (simp add: spec_candidates_def)
  then show ?thesis by auto
qed

lemma usage_in_range_clean: "usage_in_range (cleanBlacklist t p) = usage_in_range p"
  by (simp add: usage_in_range_def usageCount_clean keys_clean)

text \<open>
  Claim C9. In \<open>GetRandomKey\<close>, when some key is available, every available key
  whose counter is the minimum is among the candidates built from the least-used
  threshold, so that list is not empty and the branch that resets the candidates to all
  available keys is never taken. The counters are those a pool can hold
  (\<open>usage_in_range\<close>): the sum \<open>minUsage + len(available)/2\<close> does not wrap.
\<close>

theorem C9_fallback_unreachable:
  assumes "usage_in_range p"
    and "available = getAvailableKeys tAvail (cleanBlacklist tClean p)"
    and "available \<noteq> []"
  shows "(\<forall>k \<in> set available. usageCount p k = spec_minUsage p available
            \<longrightarrow> k \<in> set (leastUsed (cleanBlacklist tClean p) available))
       \<and> leastUsed (cleanBlacklist tClean p) available \<noteq> []
       \<and> candidates (cleanBlacklist tClean p) available = leastUsed (cleanBlacklist tClean p) available"
proof -
  let ?q = "cleanBlacklist tClean p"
  have sub: "set available \<subseteq> set (keys ?q)" and len: "length available \<le> length (keys ?q)"
    using assms(2) set_available length_available by auto
  have rng: "usage_in_range ?q" using assms(1) by (simp add: usage_in_range_clean)
  have eq: "leastUsed ?q available = spec_candidates ?q available"
    by (rule leastUsed_spec [OF rng sub len assms(3)])
  have ne: "leastUsed ?q available \<noteq> []"
    using eq spec_candidates_nonempty [OF assms(3)] by simp
  have "\<forall>k \<in> set available. usageCount p k = spec_minUsage p available
            \<longrightarrow> k \<in> set (leastUsed ?q available)"
    by (simp add: eq spec_candidates_def spec_minUsage_def usageCount_clean)
  then show ?thesis using ne by (simp add: candidates_def)
qed


lemma spec_candidates_clean:
  "spec_candidates (cleanBlacklist t p) available = spec_candidates p available"
  by (simp add: spec_candidates_def spec_minUsage_def usageCount_clean)

lemma candidates_subset: "set (candidates p available) \<subseteq> set available"
  by (auto simp: candidates_def leastUsed_def)

lemma candidates_nonempty: "available \<noteq> [] \<Longrightarrow> candidates p available \<noteq> []"
  by (auto simp: candidates_def)

lemma GetRandomKey_member:
  assumes "fst (GetRandomKey r tClean tAvail tUsed p) = Inr k"
  shows "k \<in> set (getAvailableKeys tAvail (cleanBlacklist tClean p))"
proof -
  let ?q = "cleanBlacklist tClean p"
  let ?av = "getAvailableKeys tAvail ?q"
  have ne: "?av \<noteq> []"
    using assms by (auto simp: GetRandomKey_def Let_def)
  then have k: "k = candidates ?q ?av ! (r mod length (candidates ?q ?av))"
    using assms by (simp add: GetRandomKey_def Let_def)
  have "candidates ?q ?av \<noteq> []" using ne by (rule candidates_nonempty)
  then have "r mod length (candidates ?q ?av) < length (candidates ?q ?av)" by simp
  then have "k \<in> set (candidates ?q ?av)" unfolding k by (rule nth_mem)
  then show ?thesis using candidates_subset by blast
qed

lemma stillBlacklisted_clean:
  assumes "tClean \<le> tAvail" "stillBlacklisted tAvail p k"
  shows "stillBlacklisted tAvail (cleanBlacklist tClean p) k"
  using assms by (auto simp: stillBlacklisted_def cleanBlacklist_def split: option.splits)

lemma GetRandomKey_not_blacklisted:
  assumes "tClean \<le> tAvail" "fst (GetRandomKey r tClean tAvail tUsed p) = Inr k"
  shows "\<not> stillBlacklisted tAvail p k"
proof
  assume "stillBlacklisted tAvail p k"
  then have "stillBlacklisted tAvail (cleanBlacklist tClean p) k"
    using assms(1) by (intro stillBlacklisted_clean)
  moreover have "k \<in> set (getAvailableKeys tAvail (cleanBlacklist tClean p))"
    using assms(2) by (rule GetRandomKey_member)
  ultimately show False by (simp add: getAvailableKeys_def)
qed

lemma blacklist_GetRandomKey:
  "blacklist (snd (GetRandomKey r tClean tAvail tUsed p)) = blacklist (cleanBlacklist tClean p)"
  by (simp add: GetRandomKey_def Let_def)

text \<open>An entry of \<open>k\<close> that expires at \<open>deadline\<close> or later stays, as long as every
  operation is over by a reading \<open>t\<close> before the deadline.\<close>

lemma step_keeps_entry:
  assumes "\<exists>e. blacklist p k = Some e \<and> deadline \<le> e"
    and "performed_by t operation" "keeps_cooldown k deadline operation" "t < deadline"
  shows "\<exists>e. blacklist (step operation p) k = Some e \<and> deadline \<le> e"
proof (cases operation)
  case (Acquire r tc ta tu)
  then have "tc < deadline" using assms(2,4) by simp
  then show ?thesis
    using assms(1) Acquire by (auto simp: blacklist_GetRandomKey cleanBlacklist_def)
next
  case (Success key)
  then show ?thesis using assms(1) by (simp add: MarkSuccess_def)
next
  case (Failed key retryAfter now)
  then show ?thesis using assms(1,3) by (auto simp: MarkFailed_def)
qed

lemma run_keeps_entry:
  assumes "\<forall>operation \<in> set ops. performed_by t operation \<and> keeps_cooldown k deadline operation"
    and "t < deadline" "\<exists>e. blacklist p k = Some e \<and> deadline \<le> e"
  shows "\<exists>e. blacklist (run ops p) k = Some e \<and> deadline \<le> e"
  using assms
proof (induction ops arbitrary: p)
  case Nil
  then show ?case by simp
next
  case (Cons operation rest)
  have "\<exists>e. blacklist (step operation p) k = Some e \<and> deadline \<le> e"
    using Cons.prems by (intro step_keeps_entry [where t = t]) auto
  then show ?case using Cons by simp
qed

text \<open>
  Claim C1. On a clock that does not run backwards (\<open>tClean \<le> tAvail\<close>),
  \<open>GetRandomKey\<close> never returns a key that has a blacklist entry expiring after the
  reading \<open>tAvail\<close> at which availability is decided. In particular, after
  \<open>MarkFailed k d\<close> at reading \<open>now\<close>, and after any operations on the pool that are
  over by then and do not overwrite the entry of \<open>k\<close> with an earlier expiry, a
  \<open>GetRandomKey\<close> that reads the clock before \<open>now + d\<close> does not return \<open>k\<close>: it
  returns another key or the error.
\<close>

theorem C1_never_returns_blacklisted:
  "(tClean \<le> tAvail \<longrightarrow> fst (GetRandomKey r tClean tAvail tUsed p) = Inr k
      \<longrightarrow> \<not> (\<exists>expireTime. blacklist p k = Some expireTime \<and> tAvail < expireTime))
   \<and> ((\<forall>operation \<in> set ops. performed_by tClean operation \<and> keeps_cooldown k (now + d) operation)
      \<longrightarrow> tClean \<le> tAvail \<longrightarrow> tAvail < now + d
      \<longrightarrow> fst (GetRandomKey r tClean tAvail tUsed (run ops (MarkFailed k d now p))) \<noteq> Inr k)"
proof (intro conjI impI)
  assume "tClean \<le> tAvail" "fst (GetRandomKey r tClean tAvail tUsed p) = Inr k"
  then have "\<not> stillBlacklisted tAvail p k" by (rule GetRandomKey_not_blacklisted)
  then show "\<not> (\<exists>expireTime. blacklist p k = Some expireTime \<and> tAvail < expireTime)"
    by (auto simp: stillBlacklisted_def)
next
  assume ops: "\<forall>operation \<in> set ops. performed_by tClean operation \<and> keeps_cooldown k (now + d) operation"
    and le: "tClean \<le> tAvail" and lt: "tAvail < now + d"
  let ?p = "run ops (MarkFailed k d now p)"
  have "\<exists>e. blacklist (MarkFailed k d now p) k = Some e \<and> now + d \<le> e"
    by (simp add: MarkFailed_def)
  then have "\<exists>e. blacklist ?p k = Some e \<and> now + d \<le> e"
    using ops le lt by (intro run_keeps_entry [where t = tClean]) auto
  then have "stillBlacklisted tAvail ?p k"
    using lt by (auto simp: stillBlacklisted_def)
  then show "fst (GetRandomKey r tClean tAvail tUsed ?p) \<noteq> Inr k"
    using GetRandomKey_not_blacklisted [OF le] by blast
qed

text \<open>
  Claim C6. When some key is available, \<open>GetRandomKey\<close> selects among exactly the
  available keys whose counter is at most the minimum counter of the available keys plus
  half their number (rounded down); it returns the candidate at the position drawn by
  \<open>rand.Intn\<close> (every position of the list is returned for exactly the draw of that
  position, so a uniform draw is a uniform choice of position), and before returning it
  adds one to the counter of that key and records the reading \<open>tUsed\<close> as its last use.
  Nothing else of the pool changes but the expired blacklist entries.
\<close>

theorem C6_least_used_selection:
  assumes "usage_in_range p"
    and "available = getAvailableKeys tAvail (cleanBlacklist tClean p)"
    and "available \<noteq> []"
  shows "spec_candidates p available \<noteq> []
       \<and> (let cs = spec_candidates p available; k = cs ! (r mod length cs)
          in GetRandomKey r tClean tAvail tUsed p =
               (Inr k, (cleanBlacklist tClean p)
                  \<lparr>usageCounts := (usageCounts p)(k \<mapsto> usageCount p k + 1),
                   lastUsedTime := (lastUsedTime p)(k \<mapsto> tUsed)\<rparr>))
       \<and> (\<forall>i < length (spec_candidates p available).
             fst (GetRandomKey i tClean tAvail tUsed p) = Inr (spec_candidates p available ! i))"
proof -
  let ?q = "cleanBlacklist tClean p"
  let ?cs = "spec_candidates p available"
  have sub: "set available \<subseteq> set (keys ?q)" and len: "length available \<le> length (keys ?q)"
    using assms(2) set_available length_available by auto
  have rng: "usage_in_range ?q" using assms(1) by (simp add: usage_in_range_clean)
  have ne: "?cs \<noteq> []" using assms(3) by (rule spec_candidates_nonempty)
  have "leastUsed ?q available = ?cs"
    using leastUsed_spec [OF rng sub len assms(3)] by (simp add: spec_candidates_clean)
  then have cs: "candidates ?q available = ?cs"
    using ne by (simp add: candidates_def)
  have maps: "usageCounts ?q = usageCounts p" "lastUsedTime ?q = lastUsedTime p"
    by (simp_all add: cleanBlacklist_def)
  have sel: "GetRandomKey r' tClean tAvail tUsed p =
      (Inr (?cs ! (r' mod length ?cs)), ?q
         \<lparr>usageCounts := (usageCounts p)(?cs ! (r' mod length ?cs) \<mapsto> usageCount p (?cs ! (r' mod length ?cs)) + 1),
          lastUsedTime := (lastUsedTime p)(?cs ! (r' mod length ?cs) \<mapsto> tUsed)\<rparr>)" for r'
  proof -
    let ?k = "?cs ! (r' mod length ?cs)"
    have "r' mod length ?cs < length ?cs" using ne by simp
    then have "?k \<in> set ?cs" by (rule nth_mem)
    then have "?k \<in> set available" by (auto simp: spec_candidates_def)
    then have kin: "?k \<in> set (keys p)" using sub by (auto simp: keys_clean)
    then have "0 \<le> usageCount p ?k" "usageCount p ?k + int (length (keys p)) < 2 ^ 63"
      using assms(1) by (auto simp: usage_in_range_def)
    moreover have "1 \<le> int (length (keys p))" using kin by (cases "keys p") auto
    moreover have "(0::int) \<le> 2 ^ 63" by simp
    ultimately have "- (2 ^ 63) \<le> usageCount p ?k + 1" "usageCount p ?k + 1 < 2 ^ 63"
      by linarith+
    then have "wrap64 (usageCount p ?k + 1) = usageCount p ?k + 1" by (rule wrap64_id)
    then show ?thesis
      using assms(2,3) cs maps by (simp add: GetRandomKey_def Let_def usageCount_clean)
  qed
  have "\<forall>i < length ?cs. fst (GetRandomKey i tClean tAvail tUsed p) = Inr (?cs ! i)"
    by (simp add: sel)
  then show ?thesis using ne sel [of r] by (simp add: Let_def)
qed


lemma example_pool_in_range: "usage_in_range example_pool"
  by (simp add: usage_in_range_def example_pool_def usageCount_def)

lemma example_pool_available:
  "getAvailableKeys 10 (cleanBlacklist 10 example_pool) = [''k2'', ''k3'']"
  by (simp add: getAvailableKeys_def cleanBlacklist_def stillBlacklisted_def example_pool_def)

text \<open>C9 at the example pool, read at clock 10: \<open>k1\<close> is blacklisted, \<open>k2\<close> has the
  least counter and is a candidate.\<close>

theorem C9_fallback_unreachable_witness:
  "usage_in_range example_pool
   \<and> getAvailableKeys 10 (cleanBlacklist 10 example_pool) = [''k2'', ''k3'']
   \<and> spec_minUsage example_pool [''k2'', ''k3''] = 0
   \<and> ''k2'' \<in> set (leastUsed (cleanBlacklist 10 example_pool) [''k2'', ''k3''])
   \<and> leastUsed (cleanBlacklist 10 example_pool) [''k2'', ''k3''] \<noteq> []
   \<and> candidates (cleanBlacklist 10 example_pool) [''k2'', ''k3'']
       = leastUsed (cleanBlacklist 10 example_pool) [''k2'', ''k3'']"
proof -
  have m: "spec_minUsage example_pool [''k2'', ''k3''] = 0"
    by (simp add: spec_minUsage_def usageCount_def example_pool_def)
  have u: "usageCount example_pool ''k2'' = 0"
    by (simp add: usageCount_def example_pool_def)
  show ?thesis
    using C9_fallback_unreachable [OF example_pool_in_range example_pool_available [symmetric]]
      example_pool_in_range example_pool_available m u
    by simp
qed

text \<open>C6 at the example pool: the candidates are \<open>[k2]\<close>, and \<open>k2\<close> is returned with its
  counter set to 1.\<close>

theorem C6_least_used_selection_witness:
  "usage_in_range example_pool
   \<and> getAvailableKeys 10 (cleanBlacklist 10 example_pool) = [''k2'', ''k3'']
   \<and> spec_candidates example_pool [''k2'', ''k3''] = [''k2'']
   \<and> GetRandomKey 7 10 10 11 example_pool =
       (Inr ''k2'', (cleanBlacklist 10 example_pool)
          \<lparr>usageCounts := (usageCounts example_pool)(''k2'' \<mapsto> 1),
           lastUsedTime := (lastUsedTime example_pool)(''k2'' \<mapsto> 11)\<rparr>)"
proof -
  have c: "spec_candidates example_pool [''k2'', ''k3''] = [''k2'']"
    by (simp add: spec_candidates_def spec_minUsage_def usageCount_def example_pool_def)
  have u: "usageCount example_pool ''k2'' = 0"
    by (simp add: usageCount_def example_pool_def)
  show ?thesis
    using C6_least_used_selection [OF example_pool_in_range example_pool_available [symmetric], where r = 7 and tUsed = 11]
      example_pool_in_range example_pool_available c u
    by (simp add: Let_def)
qed

lemma example_acquire: "fst (GetRandomKey 0 10 10 10 example_pool) = Inr ''k2''"
  by (simp add: GetRandomKey_def Let_def getAvailableKeys_def cleanBlacklist_def
      stillBlacklisted_def candidates_def leastUsed_def threshold_def wrap64_def
      usageCount_def example_pool_def)

text \<open>C1 at the example pool: \<open>k2\<close> is returned at reading 10 and has no entry; marked
  failed at 60 for 60, it is not returned at reading 70, after three more operations.\<close>

theorem C1_never_returns_blacklisted_witness:
  "fst (GetRandomKey 0 10 10 10 example_pool) = Inr ''k2''
   \<and> \<not> (\<exists>expireTime. blacklist example_pool ''k2'' = Some expireTime \<and> 10 < expireTime)
   \<and> performed_by 70 (Acquire 0 65 65 65) \<and> keeps_cooldown ''k2'' (60 + 60) (Failed ''k2'' 60 67)
   \<and> fst (GetRandomKey 0 70 70 70
          (run [Acquire 0 65 65 65, Success ''k3'', Failed ''k2'' 60 67]
             (MarkFailed ''k2'' 60 60 example_pool))) \<noteq> Inr ''k2''"
proof -
  have ops: "\<forall>operation \<in> set [Acquire 0 65 65 65, Success ''k3'', Failed ''k2'' 60 67].
      performed_by 70 operation \<and> keeps_cooldown ''k2'' (60 + 60) operation"
    by simp
  have a: "\<not> (\<exists>expireTime. blacklist example_pool ''k2'' = Some expireTime \<and> 10 < expireTime)"
    using C1_never_returns_blacklisted [where tClean = 10 and tAvail = 10 and r = 0 and tUsed = 10
        and p = example_pool and k = "''k2''"] example_acquire
    by simp
  have b: "fst (GetRandomKey 0 70 70 70
          (run [Acquire 0 65 65 65, Success ''k3'', Failed ''k2'' 60 67]
             (MarkFailed ''k2'' 60 60 example_pool))) \<noteq> Inr ''k2''"
    using C1_never_returns_blacklisted [where tClean = 70 and tAvail = 70 and r = 0 and tUsed = 70
        and ops = "[Acquire 0 65 65 65, Success ''k3'', Failed ''k2'' 60 67]"
        and k = "''k2''" and now = 60 and d = 60 and p = example_pool] ops
    by simp
  show ?thesis using example_acquire a b by simp
qed

subsection \<open>The counters of a reachable pool\<close>

lemma keys_step: "keys (step operation p) = keys p"
  by (cases operation)
    (simp_all add: GetRandomKey_def Let_def MarkSuccess_def MarkFailed_def keys_clean)

lemma usageCount_step_bounds:
  assumes "\<forall>k. 0 \<le> usageCount p k \<and> usageCount p k \<le> int n" and "int n + 1 < 2 ^ 63"
  shows "0 \<le> usageCount (step operation p) k \<and> usageCount (step operation p) k \<le> int (Suc n)"
proof (cases operation)
  case (Acquire r tClean tAvail tUsed)
  let ?q = "cleanBlacklist tClean p"
  have b: "0 \<le> usageCount p k'" "usageCount p k' \<le> int n" for k'
    using assms(1) by auto
  have pos: "(0::int) \<le> 2 ^ 63" by simp
  have w: "wrap64 (usageCount p k' + 1) = usageCount p k' + 1" for k'
    using b [of k'] assms(2) pos by (intro wrap64_id) linarith+
  show ?thesis
    using b [of k] w
    by (auto simp: Acquire GetRandomKey_def Let_def usageCount_def cleanBlacklist_def
        split: option.splits)
next
  case (Success key)
  then show ?thesis using assms(1) by (auto simp: MarkSuccess_def intro: order_trans)
next
  case (Failed key retryAfter now)
  then have "usageCount (step operation p) k = usageCount p k"
    by (simp add: MarkFailed_def usageCount_def)
  then show ?thesis using assms(1) by (auto intro: order_trans)
qed

lemma usageCount_run_bounds:
  assumes "\<forall>k. 0 \<le> usageCount p k \<and> usageCount p k \<le> int n"
    and "int n + int (length ops) < 2 ^ 63"
  shows "keys (run ops p) = keys p
       \<and> (\<forall>k. 0 \<le> usageCount (run ops p) k \<and> usageCount (run ops p) k \<le> int (n + length ops))"
  using assms
proof (induction ops arbitrary: p n)
  case Nil
  then show ?case by simp
next
  case (Cons operation rest)
  have small: "int n + 1 < 2 ^ 63" using Cons.prems(2) by simp
  have "\<forall>k. 0 \<le> usageCount (step operation p) k \<and> usageCount (step operation p) k \<le> int (Suc n)"
    using usageCount_step_bounds [OF Cons.prems(1) small] by blast
  moreover have "int (Suc n) + int (length rest) < 2 ^ 63" using Cons.prems(2) by simp
  ultimately have "keys (run rest (step operation p)) = keys (step operation p)
       \<and> (\<forall>k. 0 \<le> usageCount (run rest (step operation p)) k
              \<and> usageCount (run rest (step operation p)) k \<le> int (Suc n + length rest))"
    by (rule Cons.IH)
  then show ?case by (simp add: keys_step)
qed

text \<open>Every pool reached from a new one by fewer than \<open>2^63\<close> operations, less the number
  of keys, has its counters in range.\<close>

lemma usage_in_range_reachable:
  assumes "NewAPIKeyPool ks = Some p0" and "int (length ops) + int (length ks) < 2 ^ 63"
  shows "usage_in_range (run ops p0)"
proof -
  have p0: "keys p0 = ks" "\<forall>k. usageCount p0 k = 0"
    using assms(1) by (auto simp: NewAPIKeyPool_def usageCount_def split: if_splits)
  have "\<forall>k. 0 \<le> usageCount p0 k \<and> usageCount p0 k \<le> int 0" using p0(2) by simp
  moreover have "int 0 + int (length ops) < 2 ^ 63" using assms(2) by simp
  ultimately have r: "keys (run ops p0) = keys p0
       \<and> (\<forall>k. 0 \<le> usageCount (run ops p0) k \<and> usageCount (run ops p0) k \<le> int (0 + length ops))"
    by (rule usageCount_run_bounds)
  show ?thesis
    unfolding usage_in_range_def
  proof
    fix k assume "k \<in> set (keys (run ops p0))"
    have lo: "0 \<le> usageCount (run ops p0) k" and hi: "usageCount (run ops p0) k \<le> int (length ops)"
      using r by auto
    have ks: "keys (run ops p0) = ks" using r p0(1) by simp
    have "usageCount (run ops p0) k + int (length ks) < 2 ^ 63"
      using hi assms(2) by linarith
    then have "usageCount (run ops p0) k + int (length (keys (run ops p0))) < 2 ^ 63"
      by (simp only: ks)
    then show "0 \<le> usageCount (run ops p0) k
        \<and> usageCount (run ops p0) k + int (length (keys (run ops p0))) < 2 ^ 63"
      using lo by simp
  qed
qed

section \<open>Properties of SplitForAudio\<close>

lemma len_nonneg: "0 \<le> len s"
  by (induction s) (auto simp: len_def runeLen_def)

lemma len_append: "len (xs @ ys) = len xs + len ys"
  by (simp add: len_def)

lemma len_rev: "len (rev s) = len s"
  by (simp add: len_def rev_map [symmetric] del: rev_map)

lemma len_dropWhile: "len (dropWhile P s) \<le> len s"
proof (induction s)
  case Nil
  then show ?case by simp
next
  case (Cons r s)
  have "0 \<le> runeLen r" by (simp add: runeLen_def)
  then show ?case using Cons by (simp add: len_def)
qed

lemma len_TrimSpace: "len (TrimSpace s) \<le> len s"
proof -
  have "len (TrimSpace s) = len (dropWhile IsSpace (rev (dropWhile IsSpace s)))"
    by (simp add: TrimSpace_def len_rev)
  also have "\<dots> \<le> len (rev (dropWhile IsSpace s))" by (rule len_dropWhile)
  also have "\<dots> = len (dropWhile IsSpace s)" by (rule len_rev)
  also have "\<dots> \<le> len s" by (rule len_dropWhile)
  finally show ?thesis .
qed

text \<open>
  Claim C4, as amended. For a script shorter than the chunk limit, \<open>SplitForAudio\<close>
  returns no chunk when the script is empty or consists of white space only, and
  otherwise exactly one chunk: the script with the surrounding white space removed.
\<close>

theorem C4_short_script_one_chunk:
  assumes "len script < AudioChunkSize"
  shows "SplitForAudio AudioChunkSize script
           = (if TrimSpace script = [] then [] else [TrimSpace script])"
proof -
  have "len (TrimSpace script) \<le> AudioChunkSize"
    using len_TrimSpace [of script] assms by linarith
  then show ?thesis by (simp add: SplitForAudio_def Let_def)
qed

text \<open>
  Claim C4 as stated includes the empty and the blank script among those that give
  exactly one chunk. A script of two spaces, with limit 100, gives none.
\<close>

theorem C4_blank_script_counterexample:
  "\<not> (\<forall>AudioChunkSize script. len script < AudioChunkSize
        \<longrightarrow> SplitForAudio AudioChunkSize script = [TrimSpace script])"
proof
  assume "\<forall>AudioChunkSize script. len script < AudioChunkSize
        \<longrightarrow> SplitForAudio AudioChunkSize script = [TrimSpace script]"
  then have "len [0x20, 0x20] < 100 \<longrightarrow> SplitForAudio 100 [0x20, 0x20] = [TrimSpace [0x20, 0x20]]"
    by blast
  then show False
    by (simp add: SplitForAudio_def TrimSpace_def IsSpace_def len_def runeLen_def)
qed

lemma atomic_fieldsFrom:
  "(word = [] \<or> atomic_token word) \<Longrightarrow> w \<in> set (fieldsFrom word s) \<Longrightarrow> atomic_token w"
proof (induction s arbitrary: word)
  case Nil
  then show ?case by (auto split: if_splits)
next
  case (Cons r s)
  show ?case
  proof (cases "IsSpace r")
    case True
    then have "w = word \<and> word \<noteq> [] \<or> w \<in> set (fieldsFrom [] s)"
      using Cons.prems(2) by (auto split: if_splits)
    then show ?thesis using Cons.prems(1) Cons.IH [of "[]"] by auto
  next
    case False
    then have "atomic_token (word @ [r])"
      using Cons.prems(1) by (auto simp: atomic_token_def)
    moreover have "w \<in> set (fieldsFrom (word @ [r]) s)"
      using False Cons.prems(2) by simp
    ultimately show ?thesis using Cons.IH by blast
  qed
qed

lemma atomic_Fields: "w \<in> set (Fields s) \<Longrightarrow> atomic_token w"
  unfolding Fields_def by (rule atomic_fieldsFrom [of "[]"]) auto

text \<open>A chunk within the limit, or a single token above it.\<close>

lemma longTextLoop_chunks:
  assumes "\<forall>w \<in> set ws. atomic_token w"
    and "\<forall>c \<in> set chunks. len c \<le> limit \<or> atomic_token c"
    and "current = [] \<or> len current \<le> limit \<or> atomic_token current"
    and "c \<in> set (longTextLoop limit chunks current ws)"
  shows "len c \<le> limit \<or> atomic_token c"
  using assms
proof (induction ws arbitrary: chunks current)
  case Nil
  then show ?case by (auto split: if_splits)
next
  case (Cons w ws)
  have w: "atomic_token w" and ws: "\<forall>w \<in> set ws. atomic_token w"
    using Cons.prems(1) by auto
  show ?case
  proof (cases "len current + len w + 1 > limit")
    case True
    let ?chunks = "if current \<noteq> [] then chunks @ [current] else chunks"
    have "\<forall>c \<in> set ?chunks. len c \<le> limit \<or> atomic_token c"
      using Cons.prems(2,3) by auto
    moreover have "c \<in> set (longTextLoop limit ?chunks w ws)"
      using True Cons.prems(4) by simp
    ultimately show ?thesis using Cons.IH [OF ws, of ?chunks w] w by blast
  next
    case False
    let ?cur = "if current \<noteq> [] then current @ [0x20] @ w else w"
    have "len ?cur \<le> limit \<or> atomic_token ?cur"
      using False w by (auto simp: len_append len_def runeLen_def)
    moreover have "c \<in> set (longTextLoop limit chunks ?cur ws)"
      using False Cons.prems(4) by simp
    ultimately show ?thesis using Cons.IH [OF ws Cons.prems(2), of ?cur] by blast
  qed
qed

lemma splitLongText_chunks:
  "c \<in> set (splitLongText s limit) \<Longrightarrow> len c \<le> limit \<or> atomic_token c"
  unfolding splitLongText_def
  by (rule longTextLoop_chunks [of "Fields s" "[]" limit "[]"]) (auto dest: atomic_Fields)

lemma audioLoop_chunks:
  assumes "\<forall>c \<in> set chunks. len c \<le> limit \<or> atomic_token c"
    and "currentChunk = [] \<or> len currentChunk \<le> limit"
    and "c \<in> set (audioLoop limit chunks currentChunk sentences)"
  shows "len c \<le> limit \<or> atomic_token c"
  using assms
proof (induction sentences arbitrary: chunks currentChunk)
  case Nil
  then show ?case by (auto split: if_splits)
next
  case (Cons s ss)
  let ?pot = "len currentChunk + len s + (if currentChunk \<noteq> [] then 1 else 0)"
  let ?chunks = "if currentChunk \<noteq> [] then chunks @ [currentChunk] else chunks"
  have chunks': "\<forall>c \<in> set ?chunks. len c \<le> limit \<or> atomic_token c"
    using Cons.prems(1,2) by auto
  show ?case
  proof (cases "?pot \<le> limit")
    case True
    let ?cur = "if currentChunk \<noteq> [] then currentChunk @ [0x20] @ s else s"
    have "len ?cur = ?pot" by (simp add: len_append) (simp add: len_def runeLen_def)
    then have "?cur = [] \<or> len ?cur \<le> limit" using True by simp
    moreover have "c \<in> set (audioLoop limit chunks ?cur ss)"
      using True Cons.prems(3) by (simp add: Let_def)
    ultimately show ?thesis using Cons.IH [OF Cons.prems(1), of ?cur] by blast
  next
    case False
    show ?thesis
    proof (cases "len s > limit")
      case True
      have "\<forall>c \<in> set (?chunks @ splitLongText s limit). len c \<le> limit \<or> atomic_token c"
        using chunks' splitLongText_chunks by auto
      moreover have "c \<in> set (audioLoop limit (?chunks @ splitLongText s limit) [] ss)"
        using True False Cons.prems(3) by (simp add: Let_def)
      ultimately show ?thesis using Cons.IH [of "?chunks @ splitLongText s limit" "[]"] by blast
    next
      case short: False
      then have "s = [] \<or> len s \<le> limit" by simp
      moreover have "c \<in> set (audioLoop limit ?chunks s ss)"
        using short False Cons.prems(3) by (simp add: Let_def)
      ultimately show ?thesis using Cons.IH [OF chunks', of s] by blast
    qed
  qed
qed

text \<open>
  Claim C5. Every chunk returned by \<open>SplitForAudio\<close> has at most \<open>AudioChunkSize\<close>
  bytes, unless it is a single atomic token (a word without white space) that is itself
  longer than the limit. This holds for every limit, so for every positive one.
\<close>

theorem C5_chunk_within_limit:
  assumes "c \<in> set (SplitForAudio AudioChunkSize script)"
  shows "len c \<le> AudioChunkSize \<or> (atomic_token c \<and> AudioChunkSize < len c)"
proof -
  have "len c \<le> AudioChunkSize \<or> atomic_token c"
  proof (cases "TrimSpace script = [] \<or> len (TrimSpace script) \<le> AudioChunkSize")
    case True
    then show ?thesis using assms by (auto simp: SplitForAudio_def Let_def split: if_splits)
  next
    case False
    then have "c \<in> set (audioLoop AudioChunkSize [] [] (splitIntoSentences (TrimSpace script)))"
      using assms by (simp add: SplitForAudio_def Let_def)
    then show ?thesis
      by (intro audioLoop_chunks [of "[]" AudioChunkSize "[]"]) auto
  qed
  then show ?thesis by linarith
qed

subsection \<open>Concrete scripts\<close>

lemma example_len: "len (ascii ''  Hello world.  '') = 16"
  by (simp add: len_def ascii_def runeLen_def)

lemma example_trim: "TrimSpace (ascii ''  Hello world.  '') = ascii ''Hello world.''"
  by (simp add: TrimSpace_def ascii_def IsSpace_def)

lemma example_sentences: "splitIntoSentences (ascii ''ab. abcdefg'') = [ascii ''ab.'', ascii ''abcdefg'']"
  by (simp add: splitIntoSentences_def ascii_def isSentenceEnding_def IsSpace_def TrimSpace_def Let_def)

lemma example_fields: "Fields (ascii ''abcdefg'') = [ascii ''abcdefg'']"
  by (simp add: Fields_def ascii_def IsSpace_def)

lemma example_lens: "len (ascii ''ab. abcdefg'') = 11" "len (ascii ''ab.'') = 3" "len (ascii ''abcdefg'') = 7"
  by (simp_all add: len_def ascii_def runeLen_def)

lemma example_trim2: "TrimSpace (ascii ''ab. abcdefg'') = ascii ''ab. abcdefg''"
  by (simp add: TrimSpace_def ascii_def IsSpace_def)

lemma example_nonempty: "ascii ''ab. abcdefg'' \<noteq> []" "ascii ''ab.'' \<noteq> []" "ascii ''abcdefg'' \<noteq> []"
  by (simp_all add: ascii_def)

lemma example_split:
  "SplitForAudio 4 (ascii ''ab. abcdefg'') = [ascii ''ab.'', ascii ''abcdefg'']"
  by (simp add: SplitForAudio_def Let_def example_trim2 example_nonempty example_lens
      example_sentences splitLongText_def example_fields)

lemma example_atomic: "atomic_token (ascii ''abcdefg'')"
  by (simp add: atomic_token_def ascii_def IsSpace_def)

text \<open>C4 at a script of 16 bytes with limit 100.\<close>

theorem C4_short_script_one_chunk_witness:
  "len (ascii ''  Hello world.  '') < 100
   \<and> SplitForAudio 100 (ascii ''  Hello world.  '') = [ascii ''Hello world.'']"
proof -
  have short: "len (ascii ''  Hello world.  '') < 100" by (simp add: example_len)
  have "ascii ''Hello world.'' \<noteq> []" by (simp add: ascii_def)
  then show ?thesis
    using C4_short_script_one_chunk [OF short] short by (simp add: example_trim)
qed

text \<open>C5 with limit 4: one chunk is within the limit, the other is the word of 7
  bytes.\<close>

theorem C5_chunk_within_limit_witness:
  "SplitForAudio 4 (ascii ''ab. abcdefg'') = [ascii ''ab.'', ascii ''abcdefg'']
   \<and> len (ascii ''ab.'') \<le> 4
   \<and> atomic_token (ascii ''abcdefg'') \<and> 4 < len (ascii ''abcdefg'')"
proof -
  have m: "ascii ''abcdefg'' \<in> set (SplitForAudio 4 (ascii ''ab. abcdefg''))"
    and m': "ascii ''ab.'' \<in> set (SplitForAudio 4 (ascii ''ab. abcdefg''))"
    by (simp_all add: example_split)
  show ?thesis
    using C5_chunk_within_limit [OF m] C5_chunk_within_limit [OF m'] example_split
    by (simp add: example_lens)
qed

section \<open>Properties of the media composition\<close>

declare xfadeLoop.simps [simp del]

lemma xfadeLoop_from:
  "xfadeLoop ds t n (Suc j) (spec_offset ds t j) lastLabel parts
     = parts @ (if Suc j < n
                then XFade lastLabel (VNorm (Suc j)) t (spec_offset ds t (Suc j))
                       (if Suc j = n - 1 then VOut else V (Suc j))
                       # map (spec_xfade ds t n) [Suc (Suc j)..<n]
                else [])"
proof (induction "n - Suc j" arbitrary: j lastLabel parts)
  case 0
  then have "\<not> Suc j < n" by simp
  then show ?case by (subst xfadeLoop.simps) simp
next
  case (Suc m)
  then have lt: "Suc j < n" by simp
  let ?out = "if Suc j = n - 1 then VOut else V (Suc j)"
  let ?f = "XFade lastLabel (VNorm (Suc j)) t (spec_offset ds t (Suc j)) ?out"
  have m: "m = n - Suc (Suc j)" using Suc.hyps(2) by simp
  have "xfadeLoop ds t n (Suc j) (spec_offset ds t j) lastLabel parts
      = xfadeLoop ds t n (Suc (Suc j)) (spec_offset ds t (Suc j)) ?out (parts @ [?f])"
    by (subst xfadeLoop.simps) (simp add: lt add_diff_eq)
  also have "\<dots> = (parts @ [?f]) @
      (if Suc (Suc j) < n
       then XFade ?out (VNorm (Suc (Suc j))) t (spec_offset ds t (Suc (Suc j)))
              (if Suc (Suc j) = n - 1 then VOut else V (Suc (Suc j)))
              # map (spec_xfade ds t n) [Suc (Suc (Suc j))..<n]
       else [])"
    by (rule Suc.hyps(1) [OF m])
  also have "\<dots> = parts @ ?f # map (spec_xfade ds t n) [Suc (Suc j)..<n]"
  proof (cases "Suc (Suc j) < n")
    case True
    then have "?out = V (Suc j)" by auto
    then have "XFade ?out (VNorm (Suc (Suc j))) t (spec_offset ds t (Suc (Suc j)))
              (if Suc (Suc j) = n - 1 then VOut else V (Suc (Suc j)))
            = spec_xfade ds t n (Suc (Suc j))"
      by (simp add: spec_xfade_def)
    moreover have "[Suc (Suc j)..<n] = Suc (Suc j) # [Suc (Suc (Suc j))..<n]"
      using True by (simp add: upt_conv_Cons)
    ultimately show ?thesis using True by simp
  next
    case False
    then show ?thesis by simp
  qed
  finally show ?case using lt by simp
qed

lemma xfadeLoop_all:
  "xfadeLoop ds t n (Suc 0) 0 (VNorm 0) parts = parts @ map (spec_xfade ds t n) [Suc 0..<n]"
proof -
  have "xfadeLoop ds t n (Suc 0) (spec_offset ds t 0) (VNorm 0) parts
     = parts @ (if Suc 0 < n
                then XFade (VNorm 0) (VNorm (Suc 0)) t (spec_offset ds t (Suc 0))
                       (if Suc 0 = n - 1 then VOut else V (Suc 0))
                       # map (spec_xfade ds t n) [Suc (Suc 0)..<n]
                else [])"
    by (rule xfadeLoop_from)
  moreover have "Suc 0 < n \<Longrightarrow> [Suc 0..<n] = Suc 0 # [Suc (Suc 0)..<n]"
    by (simp add: upt_conv_Cons)
  ultimately show ?thesis
    by (cases "Suc 0 < n") (auto simp: spec_xfade_def)
qed

lemma spec_offset_closed:
  "i \<le> length ds \<Longrightarrow> spec_offset ds t i = sum_list (take i ds) - real i * t"
proof (induction i)
  case 0
  then show ?case by simp
next
  case (Suc i)
  then have "take (Suc i) ds = take i ds @ [ds ! i]"
    by (simp add: take_Suc_conv_app_nth)
  then show ?case using Suc by (simp add: algebra_simps)
qed

lemma durationsLoop_length:
  "durationsLoop w files = Inr ds \<Longrightarrow> length ds = length files"
  by (induction files arbitrary: ds) (auto split: sum.splits)

lemma durationsLoop_nth:
  "durationsLoop w files = Inr ds \<Longrightarrow> i < length files \<Longrightarrow> probe w (files ! i) = Some (ds ! i)"
proof (induction files arbitrary: ds i)
  case Nil
  then show ?case by simp
next
  case (Cons f fs)
  then show ?case
    by (cases i) (auto simp: GetVideoDuration_def split: sum.splits option.splits)
qed

text \<open>
  Claim C7. For two or more inputs whose durations can be read,
  \<open>MergeVideosWithTransition\<close> runs one encoder command whose filter graph first
  normalises every input to the common resolution, frame rate, pixel format
  (\<open>yuv420p\<close>) and pixel aspect ratio (\<open>setsar=1\<close>), and then chains the inputs pairwise
  with fades whose offsets follow the recurrence of the specification
  (\<open>spec_offset\<close>): the offset of pair \<open>i\<close> is the sum of the first \<open>i\<close> durations
  minus \<open>i\<close> times the transition. The durations are those \<open>ffprobe\<close> reports.
\<close>

theorem C7_normalise_then_chain:
  assumes "2 \<le> length inputFiles"
    and "durationsLoop w inputFiles = Inr durations"
  shows "MergeVideosWithTransition w inputFiles outputFile transitionDuration fps resolution
           = RunFFmpegCommand w
               (FilterComplex inputFiles
                  (map (\<lambda>i. Normalize i resolution 1 fps ''yuv420p'' (VNorm i)) [0..<length inputFiles]
                   @ map (spec_xfade durations transitionDuration (length inputFiles))
                       [1..<length inputFiles])
                  VOut fps outputFile)
       \<and> (\<forall>i < length inputFiles.
             probe w (inputFiles ! i) = Some (durations ! i)
             \<and> spec_offset durations transitionDuration i
                 = sum_list (take i durations) - real i * transitionDuration)"
proof -
  have len: "length durations = length inputFiles"
    using assms(2) by (rule durationsLoop_length)
  have "MergeVideosWithTransition w inputFiles outputFile transitionDuration fps resolution
           = RunFFmpegCommand w
               (FilterComplex inputFiles
                  (normFilters (length inputFiles) resolution fps
                   @ map (spec_xfade durations transitionDuration (length inputFiles))
                       [1..<length inputFiles])
                  VOut fps outputFile)"
  proof -
    have "length inputFiles \<noteq> 0" "length inputFiles \<noteq> 1" using assms(1) by auto
    then show ?thesis
      using assms(2) by (simp add: MergeVideosWithTransition_def xfadeLoop_all)
  qed
  moreover have "\<forall>i < length inputFiles.
             probe w (inputFiles ! i) = Some (durations ! i)
             \<and> spec_offset durations transitionDuration i
                 = sum_list (take i durations) - real i * transitionDuration"
    using durationsLoop_nth [OF assms(2)] spec_offset_closed [of _ durations transitionDuration] len
    by simp
  ultimately show ?thesis by (simp add: normFilters_def)
qed


lemma example_encoder_ok: "encoder_ok example_world cmd"
  by (simp add: example_world_def)

lemma example_durations:
  "durationsLoop example_world [''a'', ''b'', ''c''] = Inr [4, 4, 4]"
  by (simp add: GetVideoDuration_def example_world_def)

text \<open>C7 at three clips of 4 seconds with a transition of 1 second: offsets 3 and 6.\<close>

theorem C7_normalise_then_chain_witness:
  "2 \<le> length [''a'', ''b'', ''c'']
   \<and> durationsLoop example_world [''a'', ''b'', ''c''] = Inr [4, 4, 4]
   \<and> MergeVideosWithTransition example_world [''a'', ''b'', ''c''] ''m.mp4'' 1 30 ''1920x1080''
       = ([FilterComplex [''a'', ''b'', ''c'']
             [Normalize 0 ''1920x1080'' 1 30 ''yuv420p'' (VNorm 0),
              Normalize 1 ''1920x1080'' 1 30 ''yuv420p'' (VNorm 1),
              Normalize 2 ''1920x1080'' 1 30 ''yuv420p'' (VNorm 2),
              XFade (VNorm 0) (VNorm 1) 1 3 (V 1),
              XFade (V 1) (VNorm 2) 1 6 VOut]
             VOut 30 ''m.mp4''], None)
   \<and> spec_offset [4, 4, 4] 1 2 = 4 + 4 - 2 * 1"
proof -
  have two: "2 \<le> length [''a'', ''b'', ''c'']" by simp
  have up: "[0..<3] = [0, 1, 2]" "[1..<3] = [1, 2]"
    by (simp_all add: upt_rec)
  have off: "spec_offset [4, 4, 4] 1 1 = 3" "spec_offset [4, 4, 4] 1 2 = 6"
    by (simp_all add: numeral_2_eq_2)
  have enc: "RunFFmpegCommand example_world cmd = ([cmd], None)" for cmd
    by (simp add: RunFFmpegCommand_def example_encoder_ok)
  have m: "MergeVideosWithTransition example_world [''a'', ''b'', ''c''] ''m.mp4'' 1 30 ''1920x1080''
       = ([FilterComplex [''a'', ''b'', ''c'']
             [Normalize 0 ''1920x1080'' 1 30 ''yuv420p'' (VNorm 0),
              Normalize 1 ''1920x1080'' 1 30 ''yuv420p'' (VNorm 1),
              Normalize 2 ''1920x1080'' 1 30 ''yuv420p'' (VNorm 2),
              XFade (VNorm 0) (VNorm 1) 1 3 (V 1),
              XFade (V 1) (VNorm 2) 1 6 VOut]
             VOut 30 ''m.mp4''], None)"
    using C7_normalise_then_chain [OF two example_durations, of "''m.mp4''" 1 30 "''1920x1080''"]
    by (simp add: up off spec_xfade_def enc)
  have c: "spec_offset [4, 4, 4] 1 2 = 4 + 4 - 2 * 1" by (simp add: off)
  show ?thesis by (intro conjI two example_durations m c)
qed












section \<open>Properties of the batch generation\<close>

lemma firstError_None:
  "firstError i errs = None \<longleftrightarrow> (\<forall>e \<in> set errs. e = None)"
  by (induction i errs rule: firstError.induct) auto

lemma firstError_Some:
  "firstError i errs = Some (j, err) \<Longrightarrow> i \<le> j \<and> j - i < length errs \<and> errs ! (j - i) = Some err"
proof (induction i errs rule: firstError.induct)
  case (1 i)
  then show ?case by simp
next
  case (2 i rest)
  then have "Suc i \<le> j \<and> j - Suc i < length rest \<and> rest ! (j - Suc i) = Some err" by simp
  moreover from this have "j - i = Suc (j - Suc i)" by arith
  ultimately show ?case by simp
next
  case (3 i e rest)
  then show ?case by simp
qed

text \<open>When every unit has stored its result before the caller resumes, a failing unit
  makes the batch fail, with the index and the error of a failing unit.\<close>

lemma GenerateAudioChunks_all_stored:
  assumes "0 < maxConcurrent" "i < n" "unit i = Inl e" "\<forall>k < n. stored k"
  shows "\<exists>j err. GenerateAudioChunks unit stored n maxConcurrent = Some (Inl (UnitFailed j err))
            \<and> j < n \<and> unit j = Inl err"
proof -
  have "seenErrors unit stored n ! i = Some e"
    using assms by (simp add: seenErrors_def)
  moreover have "i < length (seenErrors unit stored n)" using assms(2) by (simp add: seenErrors_def)
  ultimately have "Some e \<in> set (seenErrors unit stored n)" by (metis nth_mem)
  then have "firstError 0 (seenErrors unit stored n) \<noteq> None"
    by (auto simp: firstError_None)
  then obtain j err where f: "firstError 0 (seenErrors unit stored n) = Some (j, err)" by auto
  from firstError_Some [OF f] have j: "j < n" and "seenErrors unit stored n ! j = Some err"
    by (simp_all add: seenErrors_def)
  then have "unit j = Inl err"
    by (auto simp: seenErrors_def split: if_splits sum.splits)
  then show ?thesis using f j assms(1,2) by (auto simp: GenerateAudioChunks_def)
qed

text \<open>
  Claim C3 says that a batch in which some unit fails all its attempts returns an error
  citing a failing unit and no output sequence. The code waits only for the unit of the
  last index. With two units of which the first fails (after its back-off sleeps) and the
  second has succeeded before, the caller resumes while the error of the first is not yet
  stored: both batch calls return success, with an output sequence whose first path is
  empty.
\<close>

theorem C3_partial_success_reported:
  "example_units 0 = Inl ''failed after 3 retries''
   \<and> GenerateAudioChunks example_units (\<lambda>i. False) 2 2 = Some (Inr ['''', ''chunk_001.mp3''])
   \<and> GenerateVideos example_units (\<lambda>i. False) 2 2 2 = Some (Inr ['''', ''chunk_001.mp3''])"
proof -
  have up: "[0..<2] = [0, 1]" by (simp add: upt_rec)
  have e: "seenErrors example_units (\<lambda>i. False) 2 = [None, None]"
    by (simp add: seenErrors_def up example_units_def)
  have p: "seenPaths example_units (\<lambda>i. False) 2 = ['''', ''chunk_001.mp3'']"
    by (simp add: seenPaths_def up example_units_def)
  show ?thesis
    by (simp add: GenerateAudioChunks_def GenerateVideos_def e p example_units_def)
qed

section \<open>Properties of the handler\<close>

text \<open>
  Claim C10. A submission with speaking speed 0 (and a script and voice that pass the
  earlier checks) is accepted and handled as speed 1.0: the job is registered and the
  background task is started with the request at speed 1.0. Any other speed outside
  \<open>[0.5, 2.0]\<close> is answered with a validation error, the handler is left as it was (no
  job is added to the registry, no task is started), and when the script and the voice
  are valid the error is the one about the speed.
\<close>

theorem C10_speed_validation:
  "(body = Some req \<and> Script req \<noteq> [] \<and> Voice req \<noteq> [] \<and> len (Script req) \<le> MaxTextLength h
      \<and> SpeakingSpeed req = 0
     \<longrightarrow> Generate newID body h =
           (OK newID ''processing'',
            h\<lparr>jobs := (jobs h)(newID \<mapsto>
                 \<lparr>JobID = newID, Status = ''processing'', Progress = 0,
                  CurrentStep = Initializing, VideoPath = [], Error = None\<rparr>),
              started := started h @ [(newID, req\<lparr>SpeakingSpeed := 1\<rparr>)]\<rparr>))
   \<and> (body = Some req \<and> SpeakingSpeed req \<noteq> 0 \<and> (SpeakingSpeed req < 0.5 \<or> 2 < SpeakingSpeed req)
     \<longrightarrow> (\<exists>msg. fst (Generate newID body h) = BadRequest msg)
         \<and> snd (Generate newID body h) = h
         \<and> (Script req \<noteq> [] \<and> Voice req \<noteq> [] \<and> len (Script req) \<le> MaxTextLength h
              \<longrightarrow> fst (Generate newID body h)
                    = BadRequest ''Speaking speed must be between 0.5 and 2.0''))"
  by (auto simp: Generate_def Let_def)

lemma example_script_len: "len (Script example_request) = 9"
  by (simp add: example_request_def ascii_def len_def runeLen_def)

text \<open>C10 at the example request (speed 0), and at the same request with speed 3.\<close>

theorem C10_speed_validation_witness:
  "SpeakingSpeed example_request = 0
   \<and> fst (Generate ''job2'' (Some example_request) example_handler) = OK ''job2'' ''processing''
   \<and> started (snd (Generate ''job2'' (Some example_request) example_handler))
       = [(''job2'', example_request\<lparr>SpeakingSpeed := 1\<rparr>)]
   \<and> jobs (snd (Generate ''job2'' (Some example_request) example_handler)) ''job2''
       = Some \<lparr>JobID = ''job2'', Status = ''processing'', Progress = 0,
                CurrentStep = Initializing, VideoPath = [], Error = None\<rparr>
   \<and> Generate ''job2'' (Some (example_request\<lparr>SpeakingSpeed := 3\<rparr>)) example_handler
       = (BadRequest ''Speaking speed must be between 0.5 and 2.0'', example_handler)"
proof -
  have valid: "Script example_request \<noteq> []" "Voice example_request \<noteq> []"
    "len (Script example_request) \<le> MaxTextLength example_handler"
    "SpeakingSpeed example_request = 0"
    by (simp_all add: example_script_len example_handler_def)
      (simp_all add: example_request_def ascii_def)
  have st: "started example_handler = []" by (simp add: example_handler_def)
  have ok: "Generate ''job2'' (Some example_request) example_handler =
           (OK ''job2'' ''processing'',
            example_handler\<lparr>jobs := (jobs example_handler)(''job2'' \<mapsto>
                 \<lparr>JobID = ''job2'', Status = ''processing'', Progress = 0,
                  CurrentStep = Initializing, VideoPath = [], Error = None\<rparr>),
              started := started example_handler @ [(''job2'', example_request\<lparr>SpeakingSpeed := 1\<rparr>)]\<rparr>)"
    using C10_speed_validation [of "Some example_request" example_request example_handler "''job2''"] valid
    by simp
  have bad: "fst (Generate ''job2'' (Some (example_request\<lparr>SpeakingSpeed := 3\<rparr>)) example_handler)
       = BadRequest ''Speaking speed must be between 0.5 and 2.0''"
    "snd (Generate ''job2'' (Some (example_request\<lparr>SpeakingSpeed := 3\<rparr>)) example_handler)
       = example_handler"
    using C10_speed_validation [of "Some (example_request\<lparr>SpeakingSpeed := 3\<rparr>)"
        "example_request\<lparr>SpeakingSpeed := 3\<rparr>" example_handler "''job2''"] valid
    by simp_all
  have b: "Generate ''job2'' (Some (example_request\<lparr>SpeakingSpeed := 3\<rparr>)) example_handler
       = (BadRequest ''Speaking speed must be between 0.5 and 2.0'', example_handler)"
    using bad by (simp add: prod_eq_iff)
  show ?thesis using valid(4) b by (simp add: ok st)
qed

section \<open>Properties of the pipeline\<close>

subsection \<open>The log only grows\<close>

lemma logged_updateStatus:
  "logged (updateStatus jobID stp progress h) = logged h @ [StatusLine stp progress]"
  by (simp add: updateStatus_def)

lemma logged_markJobFailed: "logged (markJobFailed jobID err h) = logged h @ [JobFailed err]"
  by (simp add: markJobFailed_def)

lemma kept_completeJob:
  "x \<in> set (logged h) \<Longrightarrow> x \<in> set (logged (completeJob jobID path h))"
  by (simp add: completeJob_def Let_def logged_updateStatus)

lemma kept_introOutroStage:
  "x \<in> set (logged h) \<Longrightarrow> x \<in> set (logged (introOutroStage w st jobID tempDir h))"
  by (auto simp: introOutroStage_def Let_def logged_updateStatus logged_markJobFailed
      intro!: kept_completeJob split: option.splits)

lemma kept_composeStage:
  "x \<in> set (logged h) \<Longrightarrow> x \<in> set (logged (composeStage w st jobID tempDir h))"
  by (auto simp: composeStage_def Let_def logged_updateStatus logged_markJobFailed
      intro!: kept_introOutroStage split: option.splits)

lemma kept_videoStage:
  "x \<in> set (logged h) \<Longrightarrow> x \<in> set (logged (videoStage w st req jobID tempDir h))"
  by (auto simp: videoStage_def Let_def logged_updateStatus logged_markJobFailed
      intro!: kept_composeStage split: option.splits sum.splits)

lemma kept_mergeAudioStage:
  "x \<in> set (logged h) \<Longrightarrow> x \<in> set (logged (mergeAudioStage w st req jobID tempDir h))"
  by (auto simp: mergeAudioStage_def Let_def logged_updateStatus logged_markJobFailed
      intro!: kept_videoStage split: option.splits)

lemma mergeAudioStage_reached:
  "StatusLine MergingAudio 40 \<in> set (logged (mergeAudioStage w st req jobID tempDir h))"
  by (auto simp: mergeAudioStage_def Let_def logged_updateStatus logged_markJobFailed
      intro!: kept_videoStage split: option.splits)

subsection \<open>The registry does not depend on the log\<close>

lemma jobs_updateStatus:
  "jobs h = jobs h' \<Longrightarrow> jobs (updateStatus jobID stp progress h) = jobs (updateStatus jobID stp progress h')"
  by (simp add: updateStatus_def split: option.splits)

lemma jobs_markJobFailed:
  "jobs h = jobs h' \<Longrightarrow> jobs (markJobFailed jobID err h) = jobs (markJobFailed jobID err h')"
  by (simp add: markJobFailed_def split: option.splits)

lemma jobs_completeJob:
  "jobs h = jobs h' \<Longrightarrow> jobs (completeJob jobID path h) = jobs (completeJob jobID path h')"
  using jobs_updateStatus [of h h' jobID Complete 100]
  by (simp add: completeJob_def Let_def split: option.splits)

lemma jobs_introOutroStage:
  assumes "jobs h = jobs h'"
  shows "jobs (introOutroStage w st jobID tempDir h) = jobs (introOutroStage w st jobID tempDir h')"
proof -
  have "jobs (updateStatus jobID AddingIntroOutro 95 h) = jobs (updateStatus jobID AddingIntroOutro 95 h')"
    using assms by (rule jobs_updateStatus)
  then show ?thesis
    by (auto simp: introOutroStage_def Let_def intro!: jobs_completeJob jobs_markJobFailed
        split: option.splits)
qed

lemma jobs_composeStage:
  assumes "jobs h = jobs h'"
  shows "jobs (composeStage w st jobID tempDir h) = jobs (composeStage w st jobID tempDir h')"
proof -
  have "jobs (updateStatus jobID Composing 90 h) = jobs (updateStatus jobID Composing 90 h')"
    using assms by (rule jobs_updateStatus)
  then show ?thesis
    by (auto simp: composeStage_def Let_def intro!: jobs_introOutroStage jobs_markJobFailed
        split: option.splits)
qed

lemma jobs_videoStage:
  assumes "jobs h = jobs h'"
  shows "jobs (videoStage w st req jobID tempDir h) = jobs (videoStage w st req jobID tempDir h')"
  using assms
  by (auto simp: videoStage_def Let_def
      intro!: jobs_composeStage jobs_markJobFailed jobs_updateStatus
      split: option.splits sum.splits)

lemma jobs_mergeAudioStage:
  assumes "jobs h = jobs h'"
  shows "jobs (mergeAudioStage w st req jobID tempDir h) = jobs (mergeAudioStage w st req jobID tempDir h')"
  using assms
  by (auto simp: mergeAudioStage_def Let_def
      intro!: jobs_videoStage jobs_markJobFailed jobs_updateStatus
      split: option.splits)

subsection \<open>Subtitles\<close>

lemma crossfade_updateStatus:
  "AudioCrossfadeDuration (updateStatus jobID stp progress h) = AudioCrossfadeDuration h"
  by (simp add: updateStatus_def)

lemma processVideoGeneration_from_subtitles:
  assumes "createTempDir st = Inr tempDir" and "generateAudioChunks st = Inr audioPaths"
  shows "processVideoGeneration w st jobID req h =
     mergeAudioStage w st req jobID tempDir
       (case GenerateSRT w (AudioCrossfadeDuration h) audioPaths (splitForSubtitles st)
               (joinPath [tempDir, ''output'']) of
          Inl err \<Rightarrow> (subtitleStageStart st jobID h)
                        \<lparr>logged := logged (subtitleStageStart st jobID h) @ [SubtitlesFailed err]\<rparr>
        | Inr srt \<Rightarrow> subtitleStageStart st jobID h)"
  using assms
  by (simp add: processVideoGeneration_def subtitleStageStart_def Let_def crossfade_updateStatus
      split: sum.splits)

text \<open>
  Claim C8. Once the temporary directory and the audio chunks are there, the result of
  \<open>GenerateSRT\<close> does not touch the job: the registry after the run is the one the
  audio-merge stage and the stages after it produce from the registry as it was when the
  subtitle step was announced, whether the subtitles failed or not. The audio-merge
  stage is always reached, and a failure of the subtitles is only logged.
\<close>

theorem C8_subtitle_failure_not_fatal:
  assumes "createTempDir st = Inr tempDir"
    and "generateAudioChunks st = Inr audioPaths"
  shows "jobs (processVideoGeneration w st jobID req h)
           = jobs (mergeAudioStage w st req jobID tempDir (subtitleStageStart st jobID h))
       \<and> StatusLine MergingAudio 40 \<in> set (logged (processVideoGeneration w st jobID req h))
       \<and> (GenerateSRT w (AudioCrossfadeDuration h) audioPaths (splitForSubtitles st)
              (joinPath [tempDir, ''output'']) = Inl err
            \<longrightarrow> SubtitlesFailed err \<in> set (logged (processVideoGeneration w st jobID req h)))"
proof -
  let ?h4 = "subtitleStageStart st jobID h"
  let ?srt = "GenerateSRT w (AudioCrossfadeDuration h) audioPaths (splitForSubtitles st)
              (joinPath [tempDir, ''output''])"
  let ?h5 = "case ?srt of Inl err \<Rightarrow> ?h4\<lparr>logged := logged ?h4 @ [SubtitlesFailed err]\<rparr> | Inr srt \<Rightarrow> ?h4"
  have run: "processVideoGeneration w st jobID req h = mergeAudioStage w st req jobID tempDir ?h5"
    using assms by (rule processVideoGeneration_from_subtitles)
  have "jobs ?h5 = jobs ?h4" by (simp split: sum.splits)
  then have a: "jobs (processVideoGeneration w st jobID req h)
           = jobs (mergeAudioStage w st req jobID tempDir ?h4)"
    unfolding run by (rule jobs_mergeAudioStage)
  have b: "StatusLine MergingAudio 40 \<in> set (logged (processVideoGeneration w st jobID req h))"
    unfolding run by (rule mergeAudioStage_reached)
  have c: "SubtitlesFailed err \<in> set (logged (processVideoGeneration w st jobID req h))"
    if "?srt = Inl err"
  proof -
    have "SubtitlesFailed err \<in> set (logged ?h5)" using that by simp
    then show ?thesis unfolding run by (rule kept_mergeAudioStage)
  qed
  show ?thesis using a b c by blast
qed


lemma example_srt_fails:
  "GenerateSRT no_create_world (AudioCrossfadeDuration example_handler) [''c0.mp3'', ''c1.mp3'']
     (splitForSubtitles example_stages) (joinPath [''tmp/job1'', ''output''])
     = Inl (CreateError ''tmp/job1/output/subtitles.srt'')"
  by (simp add: GenerateSRT_def no_create_world_def Let_def)

lemma example_job_completed:
  "map_option Status
     (jobs (mergeAudioStage no_create_world example_stages example_request ''job1'' ''tmp/job1''
              (subtitleStageStart example_stages ''job1'' example_handler)) ''job1'')
     = Some ''completed''"
  by (simp add: mergeAudioStage_def videoStage_def composeStage_def introOutroStage_def
      completeJob_def subtitleStageStart_def updateStatus_def Let_def example_stages_def
      example_request_def example_handler_def no_create_world_def example_world_def)

text \<open>C8 in a world where the subtitle file cannot be created and every other stage
  succeeds: the failure is logged, the audio merge is reached, the job ends completed.\<close>

theorem C8_subtitle_failure_not_fatal_witness:
  "createTempDir example_stages = Inr ''tmp/job1''
   \<and> generateAudioChunks example_stages = Inr [''c0.mp3'', ''c1.mp3'']
   \<and> GenerateSRT no_create_world (AudioCrossfadeDuration example_handler) [''c0.mp3'', ''c1.mp3'']
        (splitForSubtitles example_stages) (joinPath [''tmp/job1'', ''output''])
       = Inl (CreateError ''tmp/job1/output/subtitles.srt'')
   \<and> SubtitlesFailed (CreateError ''tmp/job1/output/subtitles.srt'')
       \<in> set (logged (processVideoGeneration no_create_world example_stages ''job1''
                         example_request example_handler))
   \<and> StatusLine MergingAudio 40
       \<in> set (logged (processVideoGeneration no_create_world example_stages ''job1''
                         example_request example_handler))
   \<and> map_option Status
        (jobs (processVideoGeneration no_create_world example_stages ''job1''
                 example_request example_handler) ''job1'')
       = Some ''completed''"
proof -
  have t: "createTempDir example_stages = Inr ''tmp/job1''"
    and a: "generateAudioChunks example_stages = Inr [''c0.mp3'', ''c1.mp3'']"
    by (simp_all add: example_stages_def)
  note c8 = C8_subtitle_failure_not_fatal [OF t a, of no_create_world "''job1''" example_request
      example_handler "CreateError ''tmp/job1/output/subtitles.srt''"]
  have l1: "SubtitlesFailed (CreateError ''tmp/job1/output/subtitles.srt'')
       \<in> set (logged (processVideoGeneration no_create_world example_stages ''job1''
                         example_request example_handler))"
    using c8 example_srt_fails by blast
  have l2: "StatusLine MergingAudio 40
       \<in> set (logged (processVideoGeneration no_create_world example_stages ''job1''
                         example_request example_handler))"
    using c8 by blast
  have "jobs (processVideoGeneration no_create_world example_stages ''job1''
                 example_request example_handler)
      = jobs (mergeAudioStage no_create_world example_stages example_request ''job1'' ''tmp/job1''
              (subtitleStageStart example_stages ''job1'' example_handler))"
    using c8 by blast
  then have j: "map_option Status
        (jobs (processVideoGeneration no_create_world example_stages ''job1''
                 example_request example_handler) ''job1'')
       = Some ''completed''"
    by (simp add: example_job_completed)
  show ?thesis by (intro conjI t a example_srt_fails l1 l2 j)
qed

end
